theory Spec2Isabelle
  imports Main "HOL-Library.Word"
begin

section \<open>Values shared by every class of the header\<close>

text \<open>
  The header \<^verbatim>\<open>runtime/vm/compiler/frontend/kernel_to_il.h\<close> declares the helper
  classes of the kernel-to-IL translator. This theory embeds the classes whose bodies the
  header gives: the hash-map wrappers, \<^verbatim>\<open>Fragment\<close>, the active-class scope guards,
  the counters of the flow-graph builder and the five region trackers.

  \<^item> \<^verbatim>\<open>intptr_t\<close> is a 64-bit machine integer; comparisons of \<^verbatim>\<open>intptr_t\<close> values
    are signed and written with \<open>sint\<close>.
  \<^item> A pointer is an optional address, \<open>None\<close> being \<^verbatim>\<open>NULL\<close>.
  \<^item> Reading through \<^verbatim>\<open>NULL\<close>, or through an address that holds no object, is a
    \<open>fault\<close>.
\<close>

type_synonym intptr = "64 word"

type_synonym addr = nat

datatype fault = NullDereference | DanglingPointer

text \<open>
  \<^verbatim>\<open>V()\<close>, the value-initialised \<open>V\<close>, is the class constant \<open>default\<close>; for a
  pointer type it is \<^verbatim>\<open>NULL\<close>.
\<close>

instantiation option :: (type) default
begin

definition default_option :: "'a option" where
  "default_option = None"

instance ..

end

section \<open>Hash-map wrappers\<close>

text \<open>
  Modelled from the spec: \<^verbatim>\<open>DirectChainedHashMap\<close> and
  \<^verbatim>\<open>MallocDirectChainedHashMap\<close> (\<^verbatim>\<open>vm/hash_map.h\<close>) and the trait
  \<^verbatim>\<open>RawPointerKeyValueTrait\<close> are included by the header and not defined in it. The
  specification calls the table a sparse map from key to value, so the base table is a
  finite partial map from a key to the pair stored under it; a fresh table is empty;
  the base \<^verbatim>\<open>Lookup\<close> returns a pointer to the pair whose key equals the argument
  (\<^verbatim>\<open>IsKeyEqual\<close> of \<^verbatim>\<open>IntKeyRawPointerValueTrait\<close> is \<^verbatim>\<open>kv.key == key\<close>), and
  \<^verbatim>\<open>NULL\<close> when there is none. Which pair is returned after two insertions under one
  key is not fixed by the specification; the model keeps the later one.
\<close>

type_synonym ('k, 'v) DirectChainedHashMap = "'k \<Rightarrow> ('k \<times> 'v) option"

definition DirectChainedHashMap_new :: "('k, 'v) DirectChainedHashMap" where
  "DirectChainedHashMap_new = (\<lambda>key. None)"

definition DirectChainedHashMap_Insert ::
  "('k, 'v) DirectChainedHashMap \<Rightarrow> 'k \<times> 'v \<Rightarrow> ('k, 'v) DirectChainedHashMap" where
  "DirectChainedHashMap_Insert m pair = m(fst pair := Some pair)"

definition DirectChainedHashMap_Lookup ::
  "('k, 'v) DirectChainedHashMap \<Rightarrow> 'k \<Rightarrow> ('k \<times> 'v) option" where
  "DirectChainedHashMap_Lookup m key = m key"

subsection \<open>\<^verbatim>\<open>Map<K, V>\<close>\<close>

definition Map_Insert ::
  "('k, 'v) DirectChainedHashMap \<Rightarrow> 'k \<Rightarrow> 'v \<Rightarrow> ('k, 'v) DirectChainedHashMap" where
  "Map_Insert m key val = (let pair = (key, val) in DirectChainedHashMap_Insert m pair)"

definition Map_Lookup :: "('k, 'v :: default) DirectChainedHashMap \<Rightarrow> 'k \<Rightarrow> 'v" where
  "Map_Lookup m key =
     (let pair = DirectChainedHashMap_Lookup m key in
      if pair = None then default else snd (the pair))"

definition Map_LookupPair ::
  "('k, 'v) DirectChainedHashMap \<Rightarrow> 'k \<Rightarrow> ('k \<times> 'v) option" where
  "Map_LookupPair m key = DirectChainedHashMap_Lookup m key"

subsection \<open>\<^verbatim>\<open>IntMap<V>\<close>\<close>

definition IntMap_Insert ::
  "(intptr, 'v) DirectChainedHashMap \<Rightarrow> intptr \<Rightarrow> 'v \<Rightarrow> (intptr, 'v) DirectChainedHashMap" where
  "IntMap_Insert m key val = (let pair = (key, val) in DirectChainedHashMap_Insert m pair)"

definition IntMap_Lookup :: "(intptr, 'v :: default) DirectChainedHashMap \<Rightarrow> intptr \<Rightarrow> 'v" where
  "IntMap_Lookup m key =
     (let pair = DirectChainedHashMap_Lookup m key in
      if pair = None then default else snd (the pair))"

definition IntMap_LookupPair ::
  "(intptr, 'v) DirectChainedHashMap \<Rightarrow> intptr \<Rightarrow> (intptr \<times> 'v) option" where
  "IntMap_LookupPair m key = DirectChainedHashMap_Lookup m key"

subsection \<open>\<^verbatim>\<open>MallocMap<K, V>\<close>\<close>

definition MallocMap_Insert ::
  "('k, 'v) DirectChainedHashMap \<Rightarrow> 'k \<Rightarrow> 'v \<Rightarrow> ('k, 'v) DirectChainedHashMap" where
  "MallocMap_Insert m key val = (let pair = (key, val) in DirectChainedHashMap_Insert m pair)"

definition MallocMap_Lookup :: "('k, 'v :: default) DirectChainedHashMap \<Rightarrow> 'k \<Rightarrow> 'v" where
  "MallocMap_Lookup m key =
     (let pair = DirectChainedHashMap_Lookup m key in
      if pair = None then default else snd (the pair))"

definition MallocMap_LookupPair ::
  "('k, 'v) DirectChainedHashMap \<Rightarrow> 'k \<Rightarrow> ('k \<times> 'v) option" where
  "MallocMap_LookupPair m key = DirectChainedHashMap_Lookup m key"

text \<open>A table after a sequence of insertions into a fresh one, first insertion first.\<close>

definition Map_of_insertions :: "('k \<times> 'v) list \<Rightarrow> ('k, 'v) DirectChainedHashMap" where
  "Map_of_insertions kvs = foldl (\<lambda>m (k, v). Map_Insert m k v) DirectChainedHashMap_new kvs"

definition IntMap_of_insertions :: "(intptr \<times> 'v) list \<Rightarrow> (intptr, 'v) DirectChainedHashMap" where
  "IntMap_of_insertions kvs =
     foldl (\<lambda>m (k, v). IntMap_Insert m k v) DirectChainedHashMap_new kvs"

definition MallocMap_of_insertions :: "('k \<times> 'v) list \<Rightarrow> ('k, 'v) DirectChainedHashMap" where
  "MallocMap_of_insertions kvs =
     foldl (\<lambda>m (k, v). MallocMap_Insert m k v) DirectChainedHashMap_new kvs"

section \<open>Fragments\<close>

text \<open>
  A fragment holds two instruction pointers. The three constructors of the class are
  \<open>Fragment_empty\<close>, \<open>Fragment_single\<close> and \<open>Fragment_make\<close>.
\<close>

record Fragment =
  entry :: "addr option"
  current :: "addr option"

definition Fragment_empty :: Fragment where
  "Fragment_empty = \<lparr>entry = None, current = None\<rparr>"

definition Fragment_single :: "addr option \<Rightarrow> Fragment" where
  "Fragment_single instruction = \<lparr>entry = instruction, current = instruction\<rparr>"

definition Fragment_make :: "addr option \<Rightarrow> addr option \<Rightarrow> Fragment" where
  "Fragment_make e c = \<lparr>entry = e, current = c\<rparr>"

definition is_open :: "Fragment \<Rightarrow> bool" where
  "is_open f = (entry f = None \<or> current f \<noteq> None)"

definition is_closed :: "Fragment \<Rightarrow> bool" where
  "is_closed f = (\<not> is_open f)"

text \<open>
  The graph under construction, as far as fragments touch it: the successor link of each
  instruction.
\<close>

type_synonym graph = "addr \<Rightarrow> addr option"

text \<open>
  Modelled from the spec: \<^verbatim>\<open>Instruction::LinkTo\<close> belongs to the instruction
  catalogue (\<^verbatim>\<open>vm/compiler/backend/il.h\<close>), outside the header. The specification says
  that concatenation "wires the first's open exit to the second's entry": the link sets the
  successor of the exit instruction.
\<close>

definition LinkTo :: "graph \<Rightarrow> addr \<Rightarrow> addr option \<Rightarrow> graph" where
  "LinkTo g instr nxt = g(instr := nxt)"

text \<open>
  Modelled from the spec: \<^verbatim>\<open>Fragment::operator+=\<close> and \<^verbatim>\<open>operator+\<close> are declared
  in the header and defined outside it. The specification, section 3: "Concatenating an
  open fragment with another wires the first's open exit to the second's entry;
  concatenating a closed fragment is a no-op producing the original", and section 4.1: the
  "result spans a.entry..b.current (or is closed if b is closed)". A fragment that has
  "no entry yet" has nothing to wire: on the left it gives way to the right operand, and on
  the right it leaves the left operand as it is. A left operand with an entry and a null
  exit is closed and is returned as it is.
\<close>

definition Fragment_plus_assign :: "graph \<Rightarrow> Fragment \<Rightarrow> Fragment \<Rightarrow> Fragment \<times> graph" where
  "Fragment_plus_assign g a other =
     (case entry a of
        None \<Rightarrow> (other, g)
      | Some first_instr \<Rightarrow>
          (case (current a, entry other) of
             (Some exit_instr, Some e) \<Rightarrow>
               (a\<lparr>current := current other\<rparr>, LinkTo g exit_instr (Some e))
           | _ \<Rightarrow> (a, g)))"

definition Fragment_plus :: "graph \<Rightarrow> Fragment \<Rightarrow> Fragment \<Rightarrow> Fragment \<times> graph" where
  "Fragment_plus g first second = (let result = first in Fragment_plus_assign g result second)"

section \<open>The active class and its scope guards\<close>

record ActiveClass =
  klass :: "addr option"
  member_fn :: "addr option"
  enclosing :: "addr option"
  local_type_parameters :: "addr option"

definition ActiveClass_new :: ActiveClass where
  "ActiveClass_new =
     \<lparr>klass = None, member_fn = None, enclosing = None, local_type_parameters = None\<rparr>"

definition HasMember :: "ActiveClass \<Rightarrow> bool" where
  "HasMember ac = (member_fn ac \<noteq> None)"

text \<open>
  A guard keeps a pointer to the active class and a copy of it. The object the pointer
  designates is passed to the constructor and to the destructor, which return it updated.
\<close>

record ActiveClassScope =
  acs_saved :: ActiveClass

definition ActiveClassScope_ctor ::
  "ActiveClass \<Rightarrow> addr option \<Rightarrow> ActiveClassScope \<times> ActiveClass" where
  "ActiveClassScope_ctor active_class k =
     (\<lparr>acs_saved = active_class\<rparr>, active_class\<lparr>klass := k\<rparr>)"

definition ActiveClassScope_dtor :: "ActiveClassScope \<Rightarrow> ActiveClass \<Rightarrow> ActiveClass" where
  "ActiveClassScope_dtor scope active_class = acs_saved scope"

record ActiveMemberScope =
  ams_saved :: ActiveClass

definition ActiveMemberScope_ctor ::
  "ActiveClass \<Rightarrow> addr option \<Rightarrow> ActiveMemberScope \<times> ActiveClass" where
  "ActiveMemberScope_ctor active_class m =
     (\<lparr>ams_saved = active_class\<rparr>, active_class\<lparr>member_fn := m\<rparr>)"

definition ActiveMemberScope_dtor :: "ActiveMemberScope \<Rightarrow> ActiveClass \<Rightarrow> ActiveClass" where
  "ActiveMemberScope_dtor scope active_class = ams_saved scope"

section \<open>The flow-graph builder\<close>

text \<open>
  The fields of \<^verbatim>\<open>BaseFlowGraphBuilder\<close> and of \<^verbatim>\<open>FlowGraphBuilder\<close> that the
  region trackers read and write. The four chain fields and \<^verbatim>\<open>try_catch_block_\<close> point
  to the innermost live tracker of their kind.
\<close>

record BaseFlowGraphBuilder =
  context_depth :: intptr
  last_used_block_id :: intptr
  try_catch_block :: "addr option"
  next_used_try_index :: intptr

record FlowGraphBuilder = BaseFlowGraphBuilder +
  try_depth :: intptr
  breakable_block :: "addr option"
  switch_block :: "addr option"
  try_finally_block :: "addr option"
  catch_block :: "addr option"

text \<open>
  The trackers are objects on the stack of the translator, linked by their
  \<^verbatim>\<open>outer_\<close> pointers. Every tracker of one translation has the same \<^verbatim>\<open>builder_\<close>,
  so the field is left out of the records; the fields keep their names with the class
  as a prefix instead of the trailing underscore.
\<close>

record JoinEntryInstr =
  join_block_id :: intptr
  join_try_index :: intptr

record TryCatchBlock =
  tc_outer :: "addr option"
  tc_try_index :: intptr

record TryFinallyBlock =
  tf_outer :: "addr option"
  tf_finalizer_kernel_offset :: intptr
  tf_context_depth :: intptr
  tf_try_depth :: intptr
  tf_try_index :: intptr

record SwitchBlock =
  sw_outer :: "addr option"
  sw_destinations :: "(intptr, addr option) DirectChainedHashMap"
  sw_outer_finally :: "addr option"
  sw_case_count :: intptr
  sw_depth :: intptr
  sw_context_depth :: intptr
  sw_try_index :: intptr

record BreakableBlock =
  bb_index :: intptr
  bb_outer :: "addr option"
  bb_destination :: "addr option"
  bb_outer_finally :: "addr option"
  bb_context_depth :: intptr
  bb_try_index :: intptr

record CatchBlock =
  cb_outer :: "addr option"
  cb_exception_var :: "addr option"
  cb_stack_trace_var :: "addr option"
  cb_catch_try_index :: intptr

text \<open>
  One translation: the builder, the live trackers by address, and the join entries
  allocated in the zone (a join entry's address is its position in the zone).
\<close>

record Translation = FlowGraphBuilder +
  TryCatchBlock_at :: "addr \<Rightarrow> TryCatchBlock option"
  TryFinallyBlock_at :: "addr \<Rightarrow> TryFinallyBlock option"
  SwitchBlock_at :: "addr \<Rightarrow> SwitchBlock option"
  BreakableBlock_at :: "addr \<Rightarrow> BreakableBlock option"
  CatchBlock_at :: "addr \<Rightarrow> CatchBlock option"
  zone :: "JoinEntryInstr list"

definition AllocateTryIndex :: "Translation \<Rightarrow> intptr \<times> Translation" where
  "AllocateTryIndex s =
     (next_used_try_index s, s\<lparr>next_used_try_index := next_used_try_index s + 1\<rparr>)"

definition AllocateBlockId :: "Translation \<Rightarrow> intptr \<times> Translation" where
  "AllocateBlockId s =
     (last_used_block_id s + 1, s\<lparr>last_used_block_id := last_used_block_id s + 1\<rparr>)"

text \<open>
  Modelled from the spec: \<^verbatim>\<open>BuildJoinEntry(intptr_t try_index)\<close> is declared in the
  header and defined outside it. The specification, section 4.2: the base builder
  allocates "new block ids monotonically" and builds "a join-entry block (optionally tagged
  with a try-index so it participates in exception unwinding)". The join entry is a new
  object of the zone, so the pointer returned is never null and differs from every
  pointer returned before.
\<close>

definition BuildJoinEntry :: "intptr \<Rightarrow> Translation \<Rightarrow> addr option \<times> Translation" where
  "BuildJoinEntry try_index s =
     (let (block_id, s1) = AllocateBlockId s;
          inst = length (zone s1)
      in (Some inst,
          s1\<lparr>zone := zone s1
                 @ [\<lparr>join_block_id = block_id, join_try_index = try_index\<rparr>]\<rparr>))"

text \<open>
  \<^verbatim>\<open>CurrentTryIndex()\<close> is declared in the header and defined outside it. The
  constructors below take it as the parameter \<open>cti\<close>, a function that reads the
  translation.
\<close>

subsection \<open>\<^verbatim>\<open>TryCatchBlock\<close>\<close>

definition TryCatchBlock_ctor :: "addr \<Rightarrow> intptr \<Rightarrow> Translation \<Rightarrow> Translation" where
  "TryCatchBlock_ctor this try_handler_index s =
     (let outer = try_catch_block s;
          (try_index, s1) =
             (if try_handler_index = - 1 then AllocateTryIndex s else (try_handler_index, s))
      in s1\<lparr>try_catch_block := Some this,
            TryCatchBlock_at := (TryCatchBlock_at s1)
              (this \<mapsto> \<lparr>tc_outer = outer, tc_try_index = try_index\<rparr>)\<rparr>)"

text \<open>The constructor with its default argument \<^verbatim>\<open>try_handler_index = -1\<close>.\<close>

definition TryCatchBlock_ctor_default :: "addr \<Rightarrow> Translation \<Rightarrow> Translation" where
  "TryCatchBlock_ctor_default this s = TryCatchBlock_ctor this (- 1) s"

definition TryCatchBlock_dtor :: "addr \<Rightarrow> Translation \<Rightarrow> fault + Translation" where
  "TryCatchBlock_dtor this s =
     (case TryCatchBlock_at s this of
        None \<Rightarrow> Inl DanglingPointer
      | Some blk \<Rightarrow>
          Inr (s\<lparr>try_catch_block := tc_outer blk,
                 TryCatchBlock_at := (TryCatchBlock_at s)(this := None)\<rparr>))"

definition TryCatchBlock_try_index :: "TryCatchBlock \<Rightarrow> intptr" where
  "TryCatchBlock_try_index blk = tc_try_index blk"

definition TryCatchBlock_outer :: "TryCatchBlock \<Rightarrow> addr option" where
  "TryCatchBlock_outer blk = tc_outer blk"

subsection \<open>\<^verbatim>\<open>TryFinallyBlock\<close>\<close>

definition TryFinallyBlock_ctor ::
  "(Translation \<Rightarrow> intptr) \<Rightarrow> addr \<Rightarrow> intptr \<Rightarrow> Translation \<Rightarrow> Translation" where
  "TryFinallyBlock_ctor cti this finalizer_kernel_offset s =
     s\<lparr>try_finally_block := Some this,
       TryFinallyBlock_at := (TryFinallyBlock_at s)
         (this \<mapsto> \<lparr>tf_outer = try_finally_block s,
                   tf_finalizer_kernel_offset = finalizer_kernel_offset,
                   tf_context_depth = context_depth s,
                   tf_try_depth = try_depth s - 1,
                   tf_try_index = cti s\<rparr>)\<rparr>"

definition TryFinallyBlock_dtor :: "addr \<Rightarrow> Translation \<Rightarrow> fault + Translation" where
  "TryFinallyBlock_dtor this s =
     (case TryFinallyBlock_at s this of
        None \<Rightarrow> Inl DanglingPointer
      | Some blk \<Rightarrow>
          Inr (s\<lparr>try_finally_block := tf_outer blk,
                 TryFinallyBlock_at := (TryFinallyBlock_at s)(this := None)\<rparr>))"

definition TryFinallyBlock_finalizer_kernel_offset :: "TryFinallyBlock \<Rightarrow> intptr" where
  "TryFinallyBlock_finalizer_kernel_offset blk = tf_finalizer_kernel_offset blk"

definition TryFinallyBlock_context_depth :: "TryFinallyBlock \<Rightarrow> intptr" where
  "TryFinallyBlock_context_depth blk = tf_context_depth blk"

definition TryFinallyBlock_try_depth :: "TryFinallyBlock \<Rightarrow> intptr" where
  "TryFinallyBlock_try_depth blk = tf_try_depth blk"

definition TryFinallyBlock_try_index :: "TryFinallyBlock \<Rightarrow> intptr" where
  "TryFinallyBlock_try_index blk = tf_try_index blk"

definition TryFinallyBlock_outer :: "TryFinallyBlock \<Rightarrow> addr option" where
  "TryFinallyBlock_outer blk = tf_outer blk"

subsection \<open>\<^verbatim>\<open>CatchBlock\<close>\<close>

definition CatchBlock_ctor ::
  "addr \<Rightarrow> addr option \<Rightarrow> addr option \<Rightarrow> intptr \<Rightarrow> Translation \<Rightarrow> Translation" where
  "CatchBlock_ctor this exception_var stack_trace_var catch_try_index s =
     s\<lparr>catch_block := Some this,
       CatchBlock_at := (CatchBlock_at s)
         (this \<mapsto> \<lparr>cb_outer = catch_block s,
                   cb_exception_var = exception_var,
                   cb_stack_trace_var = stack_trace_var,
                   cb_catch_try_index = catch_try_index\<rparr>)\<rparr>"

definition CatchBlock_dtor :: "addr \<Rightarrow> Translation \<Rightarrow> fault + Translation" where
  "CatchBlock_dtor this s =
     (case CatchBlock_at s this of
        None \<Rightarrow> Inl DanglingPointer
      | Some blk \<Rightarrow>
          Inr (s\<lparr>catch_block := cb_outer blk,
                 CatchBlock_at := (CatchBlock_at s)(this := None)\<rparr>))"

subsection \<open>Jump targets\<close>

text \<open>
  \<^verbatim>\<open>Destination\<close>, \<^verbatim>\<open>DestinationDirect\<close> and \<^verbatim>\<open>BreakDestination\<close> return a join
  entry and write through two out-pointers. The model passes, for each out-pointer,
  whether it is non-null, and returns what was written through it (\<open>None\<close> when nothing
  was written).
\<close>

record Jump =
  jump_destination :: "addr option"
  written_outer_finally :: "addr option option"
  written_context_depth :: "intptr option"

subsection \<open>\<^verbatim>\<open>SwitchBlock\<close>\<close>

definition SwitchBlock_ctor ::
  "(Translation \<Rightarrow> intptr) \<Rightarrow> addr \<Rightarrow> intptr \<Rightarrow> Translation \<Rightarrow> fault + Translation" where
  "SwitchBlock_ctor cti this case_count s =
     (let outer = switch_block s;
          depth =
            (case outer of
               Some oa \<Rightarrow>
                 (case SwitchBlock_at s oa of
                    None \<Rightarrow> Inl DanglingPointer
                  | Some outer_blk \<Rightarrow> Inr (sw_depth outer_blk + sw_case_count outer_blk))
             | None \<Rightarrow> Inr 0)
      in case depth of
           Inl f \<Rightarrow> Inl f
         | Inr d \<Rightarrow>
             Inr (s\<lparr>switch_block := Some this,
                    SwitchBlock_at := (SwitchBlock_at s)
                      (this \<mapsto> \<lparr>sw_outer = outer,
                                sw_destinations = DirectChainedHashMap_new,
                                sw_outer_finally = try_finally_block s,
                                sw_case_count = case_count,
                                sw_depth = d,
                                sw_context_depth = context_depth s,
                                sw_try_index = cti s\<rparr>)\<rparr>))"

definition SwitchBlock_dtor :: "addr \<Rightarrow> Translation \<Rightarrow> fault + Translation" where
  "SwitchBlock_dtor this s =
     (case SwitchBlock_at s this of
        None \<Rightarrow> Inl DanglingPointer
      | Some blk \<Rightarrow>
          Inr (s\<lparr>switch_block := sw_outer blk,
                 SwitchBlock_at := (SwitchBlock_at s)(this := None)\<rparr>))"

definition SwitchBlock_HadJumper :: "SwitchBlock \<Rightarrow> intptr \<Rightarrow> bool" where
  "SwitchBlock_HadJumper blk case_number = (IntMap_Lookup (sw_destinations blk) case_number \<noteq> None)"

definition SwitchBlock_EnsureDestination ::
  "addr \<Rightarrow> intptr \<Rightarrow> Translation \<Rightarrow> fault + addr option \<times> Translation" where
  "SwitchBlock_EnsureDestination this case_number s =
     (case SwitchBlock_at s this of
        None \<Rightarrow> Inl DanglingPointer
      | Some blk \<Rightarrow>
          (let cached_inst = IntMap_Lookup (sw_destinations blk) case_number in
           if cached_inst = None then
             (let (inst, s1) = BuildJoinEntry (sw_try_index blk) s in
              Inr (inst,
                   s1\<lparr>SwitchBlock_at := (SwitchBlock_at s1)
                        (this \<mapsto> blk\<lparr>sw_destinations :=
                                       IntMap_Insert (sw_destinations blk) case_number inst\<rparr>)\<rparr>))
           else Inr (cached_inst, s)))"

text \<open>
  The loop of \<^verbatim>\<open>Destination\<close>:
  \<^verbatim>\<open>while (block->depth_ > target_index) block = block->outer_;\<close>
  It reads through \<open>block\<close> at every step and need not end on a store whose links form a
  cycle, in which case the value is \<open>None\<close>.
\<close>

partial_function (option) SwitchBlock_find ::
  "(addr \<Rightarrow> SwitchBlock option) \<Rightarrow> addr option \<Rightarrow> intptr \<Rightarrow> (fault + addr) option" where
  "SwitchBlock_find h block target_index =
     (case block of
        None \<Rightarrow> Some (Inl NullDereference)
      | Some a \<Rightarrow>
          (case h a of
             None \<Rightarrow> Some (Inl DanglingPointer)
           | Some blk \<Rightarrow>
               if sint (sw_depth blk) > sint target_index
               then SwitchBlock_find h (sw_outer blk) target_index
               else Some (Inr a)))"

definition SwitchBlock_Destination ::
  "addr \<Rightarrow> intptr \<Rightarrow> bool \<Rightarrow> bool \<Rightarrow> Translation \<Rightarrow> (fault + Jump \<times> Translation) option" where
  "SwitchBlock_Destination this target_index outer_finally context_depth_out s =
     (case SwitchBlock_find (SwitchBlock_at s) (Some this) target_index of
        None \<Rightarrow> None
      | Some (Inl f) \<Rightarrow> Some (Inl f)
      | Some (Inr a) \<Rightarrow>
          (case SwitchBlock_at s a of
             None \<Rightarrow> Some (Inl DanglingPointer)
           | Some block \<Rightarrow>
               if outer_finally \<and> \<not> context_depth_out then Some (Inl NullDereference)
               else
                 (case SwitchBlock_EnsureDestination a (target_index - sw_depth block) s of
                    Inl f \<Rightarrow> Some (Inl f)
                  | Inr (inst, s1) \<Rightarrow>
                      Some (Inr
                        (\<lparr>jump_destination = inst,
                          written_outer_finally =
                            (if outer_finally then Some (sw_outer_finally block) else None),
                          written_context_depth =
                            (if outer_finally then Some (sw_context_depth block) else None)\<rparr>,
                         s1)))))"

definition SwitchBlock_DestinationDirect ::
  "addr \<Rightarrow> intptr \<Rightarrow> bool \<Rightarrow> bool \<Rightarrow> Translation \<Rightarrow> fault + Jump \<times> Translation" where
  "SwitchBlock_DestinationDirect this case_number outer_finally context_depth_out s =
     (case SwitchBlock_at s this of
        None \<Rightarrow> Inl DanglingPointer
      | Some block \<Rightarrow>
          if outer_finally \<and> \<not> context_depth_out then Inl NullDereference
          else
            (case SwitchBlock_EnsureDestination this case_number s of
               Inl f \<Rightarrow> Inl f
             | Inr (inst, s1) \<Rightarrow>
                 Inr (\<lparr>jump_destination = inst,
                       written_outer_finally =
                         (if outer_finally then Some (sw_outer_finally block) else None),
                       written_context_depth =
                         (if outer_finally then Some (sw_context_depth block) else None)\<rparr>,
                      s1)))"

subsection \<open>\<^verbatim>\<open>BreakableBlock\<close>\<close>

definition BreakableBlock_ctor ::
  "(Translation \<Rightarrow> intptr) \<Rightarrow> addr \<Rightarrow> Translation \<Rightarrow> fault + Translation" where
  "BreakableBlock_ctor cti this s =
     (let index =
            (case breakable_block s of
               None \<Rightarrow> Inr 0
             | Some oa \<Rightarrow>
                 (case BreakableBlock_at s oa of
                    None \<Rightarrow> Inl DanglingPointer
                  | Some outer_blk \<Rightarrow> Inr (bb_index outer_blk + 1)))
      in case index of
           Inl f \<Rightarrow> Inl f
         | Inr i \<Rightarrow>
             Inr (s\<lparr>breakable_block := Some this,
                    BreakableBlock_at := (BreakableBlock_at s)
                      (this \<mapsto> \<lparr>bb_index = i,
                                bb_outer = breakable_block s,
                                bb_destination = None,
                                bb_outer_finally = try_finally_block s,
                                bb_context_depth = context_depth s,
                                bb_try_index = cti s\<rparr>)\<rparr>))"

definition BreakableBlock_dtor :: "addr \<Rightarrow> Translation \<Rightarrow> fault + Translation" where
  "BreakableBlock_dtor this s =
     (case BreakableBlock_at s this of
        None \<Rightarrow> Inl DanglingPointer
      | Some blk \<Rightarrow>
          Inr (s\<lparr>breakable_block := bb_outer blk,
                 BreakableBlock_at := (BreakableBlock_at s)(this := None)\<rparr>))"

definition BreakableBlock_HadJumper :: "BreakableBlock \<Rightarrow> bool" where
  "BreakableBlock_HadJumper blk = (bb_destination blk \<noteq> None)"

definition BreakableBlock_destination :: "BreakableBlock \<Rightarrow> addr option" where
  "BreakableBlock_destination blk = bb_destination blk"

definition BreakableBlock_EnsureDestination ::
  "addr \<Rightarrow> Translation \<Rightarrow> fault + addr option \<times> Translation" where
  "BreakableBlock_EnsureDestination this s =
     (case BreakableBlock_at s this of
        None \<Rightarrow> Inl DanglingPointer
      | Some blk \<Rightarrow>
          if bb_destination blk = None then
            (let (inst, s1) = BuildJoinEntry (bb_try_index blk) s in
             Inr (inst,
                  s1\<lparr>BreakableBlock_at := (BreakableBlock_at s1)
                       (this \<mapsto> blk\<lparr>bb_destination := inst\<rparr>)\<rparr>))
          else Inr (bb_destination blk, s))"

text \<open>
  The loop of \<^verbatim>\<open>BreakDestination\<close>:
  \<^verbatim>\<open>while (block->index_ != label_index) block = block->outer_;\<close>
\<close>

partial_function (option) BreakableBlock_find ::
  "(addr \<Rightarrow> BreakableBlock option) \<Rightarrow> addr option \<Rightarrow> intptr \<Rightarrow> (fault + addr) option" where
  "BreakableBlock_find h block label_index =
     (case block of
        None \<Rightarrow> Some (Inl NullDereference)
      | Some a \<Rightarrow>
          (case h a of
             None \<Rightarrow> Some (Inl DanglingPointer)
           | Some blk \<Rightarrow>
               if bb_index blk \<noteq> label_index
               then BreakableBlock_find h (bb_outer blk) label_index
               else Some (Inr a)))"

text \<open>
  \<^verbatim>\<open>BreakDestination\<close> starts at the builder's innermost breakable block, which it
  reaches through \<^verbatim>\<open>this->builder_\<close>. The \<^verbatim>\<open>ASSERT(block != NULL)\<close> after the loop
  cannot fail: the loop has read through \<open>block\<close> before it ends.
\<close>

definition BreakableBlock_BreakDestination ::
  "addr \<Rightarrow> intptr \<Rightarrow> bool \<Rightarrow> bool \<Rightarrow> Translation \<Rightarrow> (fault + Jump \<times> Translation) option" where
  "BreakableBlock_BreakDestination this label_index outer_finally context_depth_out s =
     (case BreakableBlock_at s this of
        None \<Rightarrow> Some (Inl DanglingPointer)
      | Some this_blk \<Rightarrow>
          (case BreakableBlock_find (BreakableBlock_at s) (breakable_block s) label_index of
             None \<Rightarrow> None
           | Some (Inl f) \<Rightarrow> Some (Inl f)
           | Some (Inr a) \<Rightarrow>
               (case BreakableBlock_at s a of
                  None \<Rightarrow> Some (Inl DanglingPointer)
                | Some block \<Rightarrow>
                    if \<not> outer_finally \<or> \<not> context_depth_out then Some (Inl NullDereference)
                    else
                      (case BreakableBlock_EnsureDestination a s of
                         Inl f \<Rightarrow> Some (Inl f)
                       | Inr (inst, s1) \<Rightarrow>
                           Some (Inr
                             (\<lparr>jump_destination = inst,
                               written_outer_finally = Some (bb_outer_finally block),
                               written_context_depth = Some (bb_context_depth block)\<rparr>,
                              s1))))))"

text \<open>
  A chain: the addresses met from a pointer along the \<^verbatim>\<open>outer_\<close> links, innermost
  first, down to the null pointer that ends it.
\<close>

fun SwitchBlock_chain :: "(addr \<Rightarrow> SwitchBlock option) \<Rightarrow> addr option \<Rightarrow> addr list \<Rightarrow> bool" where
  "SwitchBlock_chain h p [] = (p = None)"
| "SwitchBlock_chain h p (a # as) =
     (p = Some a \<and> (case h a of None \<Rightarrow> False | Some blk \<Rightarrow> SwitchBlock_chain h (sw_outer blk) as))"

fun BreakableBlock_chain ::
  "(addr \<Rightarrow> BreakableBlock option) \<Rightarrow> addr option \<Rightarrow> addr list \<Rightarrow> bool" where
  "BreakableBlock_chain h p [] = (p = None)"
| "BreakableBlock_chain h p (a # as) =
     (p = Some a
      \<and> (case h a of None \<Rightarrow> False | Some blk \<Rightarrow> BreakableBlock_chain h (bb_outer blk) as))"

subsection \<open>Chains of switch blocks\<close>

text \<open>
  A block lies at or below a target case number when its \<^verbatim>\<open>depth_\<close> does not exceed
  it; the target is in the block's range when, in addition, it is less than
  \<^verbatim>\<open>depth_ + case_count_\<close>.
\<close>

definition SwitchBlock_at_or_below :: "(addr \<Rightarrow> SwitchBlock option) \<Rightarrow> intptr \<Rightarrow> addr \<Rightarrow> bool" where
  "SwitchBlock_at_or_below h target_index a =
     (case h a of None \<Rightarrow> False | Some blk \<Rightarrow> sint (sw_depth blk) \<le> sint target_index)"

definition SwitchBlock_in_range :: "(addr \<Rightarrow> SwitchBlock option) \<Rightarrow> intptr \<Rightarrow> addr \<Rightarrow> bool" where
  "SwitchBlock_in_range h target_index a =
     (case h a of
        None \<Rightarrow> False
      | Some blk \<Rightarrow>
          sint (sw_depth blk) \<le> sint target_index
          \<and> sint target_index < sint (sw_depth blk) + sint (sw_case_count blk))"

text \<open>
  The numbering of a chain, innermost block first: the outermost block has depth 0, every
  other block starts where the block around it ends, without overflow, and no case count
  is negative.
\<close>

fun SwitchBlock_contiguous :: "(addr \<Rightarrow> SwitchBlock option) \<Rightarrow> addr list \<Rightarrow> bool" where
  "SwitchBlock_contiguous h [] = True"
| "SwitchBlock_contiguous h [a] =
     (case h a of
        None \<Rightarrow> False
      | Some blk \<Rightarrow> sw_depth blk = 0 \<and> 0 \<le> sint (sw_case_count blk))"
| "SwitchBlock_contiguous h (a # b # as) =
     (case (h a, h b) of
        (Some blk, Some outer_blk) \<Rightarrow>
          sint (sw_depth blk) = sint (sw_depth outer_blk) + sint (sw_case_count outer_blk)
          \<and> 0 \<le> sint (sw_case_count blk)
          \<and> SwitchBlock_contiguous h (b # as)
      | _ \<Rightarrow> False)"

text \<open>
  What the loop of \<^verbatim>\<open>Destination\<close> reads of a block (its outer link and its depth),
  and the join entry a block holds for a relative case number.
\<close>

definition SwitchBlock_shape :: "Translation \<Rightarrow> addr \<Rightarrow> (addr option \<times> intptr) option" where
  "SwitchBlock_shape s a = map_option (\<lambda>blk. (sw_outer blk, sw_depth blk)) (SwitchBlock_at s a)"

definition SwitchBlock_join_of :: "Translation \<Rightarrow> addr \<Rightarrow> intptr \<Rightarrow> addr option" where
  "SwitchBlock_join_of s a k =
     (case SwitchBlock_at s a of
        None \<Rightarrow> None
      | Some blk \<Rightarrow> IntMap_Lookup (sw_destinations blk) k)"

text \<open>
  The join entry that a chain holds for an absolute case number: the one stored, under
  the relative case number, in the first block of the chain at or below the target.
\<close>

definition SwitchBlock_resolved :: "Translation \<Rightarrow> addr list \<Rightarrow> intptr \<Rightarrow> addr option" where
  "SwitchBlock_resolved s as N =
     (case find (SwitchBlock_at_or_below (SwitchBlock_at s) N) as of
        None \<Rightarrow> None
      | Some a \<Rightarrow>
          (case SwitchBlock_at s a of
             None \<Rightarrow> None
           | Some blk \<Rightarrow> IntMap_Lookup (sw_destinations blk) (N - sw_depth blk)))"

text \<open>
  A sequence of \<^verbatim>\<open>Destination\<close> requests from one block, without out-pointers; the
  join entries returned are collected in the order of the requests.
\<close>

fun SwitchBlock_Destinations ::
  "addr \<Rightarrow> intptr list \<Rightarrow> Translation \<Rightarrow> (fault + addr option list \<times> Translation) option" where
  "SwitchBlock_Destinations this [] s = Some (Inr ([], s))"
| "SwitchBlock_Destinations this (N # Ns) s =
     (case SwitchBlock_Destination this N False False s of
        None \<Rightarrow> None
      | Some (Inl f) \<Rightarrow> Some (Inl f)
      | Some (Inr (jump, s1)) \<Rightarrow>
          (case SwitchBlock_Destinations this Ns s1 of
             None \<Rightarrow> None
           | Some (Inl f) \<Rightarrow> Some (Inl f)
           | Some (Inr (js, s2)) \<Rightarrow> Some (Inr (jump_destination jump # js, s2))))"

subsection \<open>Chains of breakable blocks\<close>

definition BreakableBlock_has_index ::
  "(addr \<Rightarrow> BreakableBlock option) \<Rightarrow> intptr \<Rightarrow> addr \<Rightarrow> bool" where
  "BreakableBlock_has_index h label_index a =
     (case h a of None \<Rightarrow> False | Some blk \<Rightarrow> bb_index blk = label_index)"

definition BreakableBlock_shape :: "Translation \<Rightarrow> addr \<Rightarrow> (addr option \<times> intptr) option" where
  "BreakableBlock_shape s a =
     map_option (\<lambda>blk. (bb_outer blk, bb_index blk)) (BreakableBlock_at s a)"

text \<open>The join entry held by the first block of a chain that has the label index.\<close>

definition BreakableBlock_resolved :: "Translation \<Rightarrow> addr list \<Rightarrow> intptr \<Rightarrow> addr option" where
  "BreakableBlock_resolved s as label_index =
     (case find (BreakableBlock_has_index (BreakableBlock_at s) label_index) as of
        None \<Rightarrow> None
      | Some a \<Rightarrow>
          (case BreakableBlock_at s a of
             None \<Rightarrow> None
           | Some blk \<Rightarrow> BreakableBlock_destination blk))"

text \<open>A sequence of \<^verbatim>\<open>BreakDestination\<close> requests with both out-pointers.\<close>

fun BreakableBlock_BreakDestinations ::
  "addr \<Rightarrow> intptr list \<Rightarrow> Translation \<Rightarrow> (fault + addr option list \<times> Translation) option" where
  "BreakableBlock_BreakDestinations this [] s = Some (Inr ([], s))"
| "BreakableBlock_BreakDestinations this (l # ls) s =
     (case BreakableBlock_BreakDestination this l True True s of
        None \<Rightarrow> None
      | Some (Inl f) \<Rightarrow> Some (Inl f)
      | Some (Inr (jump, s1)) \<Rightarrow>
          (case BreakableBlock_BreakDestinations this ls s1 of
             None \<Rightarrow> None
           | Some (Inl f) \<Rightarrow> Some (Inl f)
           | Some (Inr (js, s2)) \<Rightarrow> Some (Inr (jump_destination jump # js, s2))))"

subsection \<open>A translation to evaluate the operations on\<close>

text \<open>
  A builder in the middle of a translation, at context depth 2 and try depth 1, with no
  live tracker and an empty zone.
\<close>

definition example_translation :: Translation where
  "example_translation =
     \<lparr>context_depth = 2, last_used_block_id = 0, try_catch_block = None,
      next_used_try_index = 0, try_depth = 1, breakable_block = None, switch_block = None,
      try_finally_block = None, catch_block = None,
      TryCatchBlock_at = (\<lambda>a. None), TryFinallyBlock_at = (\<lambda>a. None),
      SwitchBlock_at = (\<lambda>a. None), BreakableBlock_at = (\<lambda>a. None),
      CatchBlock_at = (\<lambda>a. None), zone = []\<rparr>"

text \<open>
  A translation in which a catch block and a finally block have been opened inside two
  nested try-catch blocks.
\<close>

definition example_nested :: Translation where
  "example_nested =
     CatchBlock_ctor 7 (Some 1) (Some 2) 0
       (TryFinallyBlock_ctor (\<lambda>s. - 1) 7 100
          (TryCatchBlock_ctor 8 (- 1) (TryCatchBlock_ctor 7 (- 1) example_translation)))"

text \<open>Sequencing of operations that may fault: the first fault ends the sequence.\<close>

definition and_then :: "'e + 'a \<Rightarrow> ('a \<Rightarrow> 'e + 'b) \<Rightarrow> 'e + 'b" where
  "and_then r f = (case r of Inl e \<Rightarrow> Inl e | Inr x \<Rightarrow> f x)"

text \<open>
  Two nested switch statements: the outer block at address 10 has three cases, then a
  finally block is opened and the context depth grows, then the inner block at address 11
  has two cases. Likewise two nested breakable blocks at addresses 30 and 31.
\<close>

definition example_switches :: Translation where
  "example_switches =
     example_translation
       \<lparr>context_depth := 3, switch_block := Some 11, try_finally_block := Some 20,
        TryFinallyBlock_at :=
          [20 \<mapsto> \<lparr>tf_outer = None, tf_finalizer_kernel_offset = 100, tf_context_depth = 2,
                   tf_try_depth = 0, tf_try_index = - 1\<rparr>],
        SwitchBlock_at :=
          [10 \<mapsto> \<lparr>sw_outer = None, sw_destinations = DirectChainedHashMap_new,
                   sw_outer_finally = None, sw_case_count = 3, sw_depth = 0,
                   sw_context_depth = 2, sw_try_index = - 1\<rparr>,
           11 \<mapsto> \<lparr>sw_outer = Some 10, sw_destinations = DirectChainedHashMap_new,
                   sw_outer_finally = Some 20, sw_case_count = 2, sw_depth = 3,
                   sw_context_depth = 3, sw_try_index = - 1\<rparr>]\<rparr>"

definition example_breakables :: Translation where
  "example_breakables =
     example_translation
       \<lparr>context_depth := 3, breakable_block := Some 31, try_finally_block := Some 20,
        TryFinallyBlock_at :=
          [20 \<mapsto> \<lparr>tf_outer = None, tf_finalizer_kernel_offset = 100, tf_context_depth = 2,
                   tf_try_depth = 0, tf_try_index = - 1\<rparr>],
        BreakableBlock_at :=
          [30 \<mapsto> \<lparr>bb_index = 0, bb_outer = None, bb_destination = None,
                   bb_outer_finally = None, bb_context_depth = 2, bb_try_index = - 1\<rparr>,
           31 \<mapsto> \<lparr>bb_index = 1, bb_outer = Some 30, bb_destination = None,
                   bb_outer_finally = Some 20, bb_context_depth = 3, bb_try_index = - 1\<rparr>]\<rparr>"

subsection \<open>Runs of one builder\<close>

text \<open>
  What one translation does to the try-index counter: it enters a try-catch block (with
  the handler index it passes, \<open>- 1\<close> for none), leaves one, or calls
  \<^verbatim>\<open>AllocateTryIndex\<close> itself. \<open>default_indices\<close> runs such events and lists, in
  the order of construction, the try-index of every block constructed without a handler
  index.
\<close>

datatype try_event = Enter addr intptr | Leave addr | Allocate

fun default_indices :: "try_event list \<Rightarrow> Translation \<Rightarrow> intptr list" where
  "default_indices [] s = []"
| "default_indices (Enter this h # evs) s =
     (let s1 = TryCatchBlock_ctor this h s in
      (if h = - 1 then
         (case TryCatchBlock_at s1 this of
            None \<Rightarrow> []
          | Some blk \<Rightarrow> [TryCatchBlock_try_index blk])
       else [])
      @ default_indices evs s1)"
| "default_indices (Leave this # evs) s =
     (case TryCatchBlock_dtor this s of
        Inl f \<Rightarrow> []
      | Inr s1 \<Rightarrow> default_indices evs s1)"
| "default_indices (Allocate # evs) s = default_indices evs (snd (AllocateTryIndex s))"

section \<open>Properties of the fragments\<close>

text \<open>
  C7: a fragment is open exactly when it has no entry or its current exit is not null,
  and closed exactly when it is not open; a fragment with an entry and a null exit is
  closed.
\<close>

theorem C7_is_open_is_closed:
  "is_open f = (entry f = None \<or> current f \<noteq> None)
   \<and> is_closed f = (\<not> is_open f)
   \<and> (entry f \<noteq> None \<and> current f = None \<longrightarrow> is_closed f \<and> \<not> is_open f)"
  by (simp add: is_open_def is_closed_def)

theorem C7_is_open_is_closed_witness:
  "is_closed (Fragment_make (Some 3) None) \<and> \<not> is_open (Fragment_make (Some 3) None)
   \<and> is_open Fragment_empty \<and> is_open (Fragment_single (Some 3))"
  using C7_is_open_is_closed [of "Fragment_make (Some 3) None"]
    C7_is_open_is_closed [of Fragment_empty]
    C7_is_open_is_closed [of "Fragment_single (Some 3)"]
  by (simp add: Fragment_make_def Fragment_empty_def Fragment_single_def)

text \<open>
  C1: a closed fragment absorbs any right operand. Concatenation, as \<^verbatim>\<open>+\<close> and as
  \<^verbatim>\<open>+=\<close>, returns the closed left operand itself and leaves every successor link of
  the graph as it was, so the reachable nodes and edges are the same.
\<close>

theorem C1_closed_fragment_absorbs:
  assumes "is_closed a"
  shows "Fragment_plus g a b = (a, g) \<and> Fragment_plus_assign g a b = (a, g)"
  using assms
  by (auto simp: Fragment_plus_def Fragment_plus_assign_def is_closed_def is_open_def
      split: option.splits)

theorem C1_closed_fragment_absorbs_witness:
  "is_closed (Fragment_make (Some 1) None)
   \<and> Fragment_plus (\<lambda>i. None) (Fragment_make (Some 1) None) (Fragment_single (Some 2))
       = (Fragment_make (Some 1) None, (\<lambda>i. None))"
proof -
  have c: "is_closed (Fragment_make (Some 1) None)"
    by (simp add: is_closed_def is_open_def Fragment_make_def)
  from C1_closed_fragment_absorbs [OF c, of "\<lambda>i. None" "Fragment_single (Some 2)"] c
  show ?thesis by simp
qed

section \<open>Properties of the hash-map wrappers\<close>

lemma foldl_Insert_other:
  assumes "key \<notin> fst ` set kvs"
  shows "foldl (\<lambda>m (k, v). DirectChainedHashMap_Insert m (k, v)) m0 kvs key = m0 key"
  using assms
proof (induction kvs arbitrary: m0)
  case Nil
  then show ?case by simp
next
  case (Cons kv kvs)
  obtain k v where kv: "kv = (k, v)" by (cases kv)
  from Cons.prems kv have "key \<noteq> k" and rest: "key \<notin> fst ` set kvs" by auto
  from Cons.IH [OF rest, of "DirectChainedHashMap_Insert m0 (k, v)"] \<open>key \<noteq> k\<close> kv
  show ?case by (simp add: DirectChainedHashMap_Insert_def)
qed

lemma Map_of_insertions_missing:
  "key \<notin> fst ` set kvs \<Longrightarrow> DirectChainedHashMap_Lookup (Map_of_insertions kvs) key = None"
  using foldl_Insert_other [of key kvs DirectChainedHashMap_new]
  by (simp add: Map_of_insertions_def Map_Insert_def DirectChainedHashMap_Lookup_def
      DirectChainedHashMap_new_def)

lemma IntMap_of_insertions_missing:
  "key \<notin> fst ` set kvs \<Longrightarrow> DirectChainedHashMap_Lookup (IntMap_of_insertions kvs) key = None"
  using foldl_Insert_other [of key kvs DirectChainedHashMap_new]
  by (simp add: IntMap_of_insertions_def IntMap_Insert_def DirectChainedHashMap_Lookup_def
      DirectChainedHashMap_new_def)

lemma MallocMap_of_insertions_missing:
  "key \<notin> fst ` set kvs
   \<Longrightarrow> DirectChainedHashMap_Lookup (MallocMap_of_insertions kvs) key = None"
  using foldl_Insert_other [of key kvs DirectChainedHashMap_new]
  by (simp add: MallocMap_of_insertions_def MallocMap_Insert_def
      DirectChainedHashMap_Lookup_def DirectChainedHashMap_new_def)

text \<open>
  C10: in each of the three wrappers, \<^verbatim>\<open>Lookup\<close> on a key that no insertion used
  returns \<^verbatim>\<open>V()\<close>, which is the null pointer when the values are pointers, and
  \<^verbatim>\<open>LookupPair\<close> on it returns null.
\<close>

theorem C10_lookup_of_missing_key:
  fixes kvs :: "('k \<times> 'v :: default) list"
    and ikvs :: "(intptr \<times> 'w :: default) list"
    and pkvs :: "(intptr \<times> addr option) list"
  assumes "key \<notin> fst ` set kvs" and "ikey \<notin> fst ` set ikvs" and "pkey \<notin> fst ` set pkvs"
  shows "Map_Lookup (Map_of_insertions kvs) key = default
       \<and> Map_LookupPair (Map_of_insertions kvs) key = None
       \<and> IntMap_Lookup (IntMap_of_insertions ikvs) ikey = default
       \<and> IntMap_LookupPair (IntMap_of_insertions ikvs) ikey = None
       \<and> MallocMap_Lookup (MallocMap_of_insertions kvs) key = default
       \<and> MallocMap_LookupPair (MallocMap_of_insertions kvs) key = None
       \<and> IntMap_Lookup (IntMap_of_insertions pkvs) pkey = None"
  using Map_of_insertions_missing [OF assms(1)] IntMap_of_insertions_missing [OF assms(2)]
    MallocMap_of_insertions_missing [OF assms(1)] IntMap_of_insertions_missing [OF assms(3)]
  by (simp add: Map_Lookup_def Map_LookupPair_def IntMap_Lookup_def IntMap_LookupPair_def
      MallocMap_Lookup_def MallocMap_LookupPair_def default_option_def)

theorem C10_lookup_of_missing_key_witness:
  "Map_Lookup (Map_of_insertions [(1 :: nat, Some (10 :: nat)), (2, Some 20)]) 3 = None
   \<and> Map_LookupPair (Map_of_insertions [(1 :: nat, Some (10 :: nat)), (2, Some 20)]) 3 = None
   \<and> IntMap_Lookup (IntMap_of_insertions [(0, Some (7 :: nat)), (4, Some 8)]) 5 = None
   \<and> IntMap_LookupPair (IntMap_of_insertions [(0, Some (7 :: nat)), (4, Some 8)]) 5 = None
   \<and> MallocMap_Lookup (MallocMap_of_insertions [(1 :: nat, Some (10 :: nat)), (2, Some 20)]) 3
       = None
   \<and> Map_Lookup (Map_of_insertions [(1 :: nat, Some (10 :: nat)), (2, Some 20)]) 2 = Some 20"
proof -
  have a: "(3 :: nat) \<notin> fst ` set [(1 :: nat, Some (10 :: nat)), (2, Some 20)]" by simp
  have b: "(5 :: intptr) \<notin> fst ` set [(0, Some (7 :: nat)), (4, Some 8)]" by simp
  have c: "(5 :: intptr) \<notin> fst ` set [(0, Some (7 :: addr)), (4, Some 8)]" by simp
  have d: "Map_Lookup (Map_of_insertions [(1 :: nat, Some (10 :: nat)), (2, Some 20)]) 2
      = Some 20"
    by (simp add: Map_Lookup_def Map_of_insertions_def Map_Insert_def
        DirectChainedHashMap_Insert_def DirectChainedHashMap_Lookup_def
        DirectChainedHashMap_new_def)
  from C10_lookup_of_missing_key [OF a b c] d
  show ?thesis by (simp add: default_option_def)
qed

section \<open>Properties of the active-class scope guards\<close>

text \<open>
  C9: a scope guard saves the whole active class when it is constructed and its
  destructor writes exactly that value back, whatever the active class holds by then.
  While the guard is alive, \<^verbatim>\<open>ActiveClassScope\<close> has changed only the class and
  \<^verbatim>\<open>ActiveMemberScope\<close> only the member; the other three fields are the saved ones.
\<close>

theorem C9_scope_guards_save_and_restore:
  "acs_saved (fst (ActiveClassScope_ctor ac k)) = ac
   \<and> snd (ActiveClassScope_ctor ac k) = ac\<lparr>klass := k\<rparr>
   \<and> klass (snd (ActiveClassScope_ctor ac k)) = k
   \<and> member_fn (snd (ActiveClassScope_ctor ac k)) = member_fn ac
   \<and> enclosing (snd (ActiveClassScope_ctor ac k)) = enclosing ac
   \<and> local_type_parameters (snd (ActiveClassScope_ctor ac k)) = local_type_parameters ac
   \<and> ActiveClassScope_dtor (fst (ActiveClassScope_ctor ac k)) later = ac
   \<and> ams_saved (fst (ActiveMemberScope_ctor ac m)) = ac
   \<and> snd (ActiveMemberScope_ctor ac m) = ac\<lparr>member_fn := m\<rparr>
   \<and> member_fn (snd (ActiveMemberScope_ctor ac m)) = m
   \<and> klass (snd (ActiveMemberScope_ctor ac m)) = klass ac
   \<and> enclosing (snd (ActiveMemberScope_ctor ac m)) = enclosing ac
   \<and> local_type_parameters (snd (ActiveMemberScope_ctor ac m)) = local_type_parameters ac
   \<and> ActiveMemberScope_dtor (fst (ActiveMemberScope_ctor ac m)) later = ac"
  by (simp add: ActiveClassScope_ctor_def ActiveClassScope_dtor_def
      ActiveMemberScope_ctor_def ActiveMemberScope_dtor_def)

theorem C9_scope_guards_save_and_restore_witness:
  "ActiveClassScope_dtor (fst (ActiveClassScope_ctor ActiveClass_new (Some 5)))
      (snd (ActiveMemberScope_ctor (snd (ActiveClassScope_ctor ActiveClass_new (Some 5)))
         (Some 9)))
     = ActiveClass_new
   \<and> klass (snd (ActiveClassScope_ctor ActiveClass_new (Some 5))) = Some 5
   \<and> member_fn (snd (ActiveClassScope_ctor ActiveClass_new (Some 5))) = None"
  using C9_scope_guards_save_and_restore [of ActiveClass_new "Some 5"
      "snd (ActiveMemberScope_ctor (snd (ActiveClassScope_ctor ActiveClass_new (Some 5)))
         (Some 9))" None]
  by (simp add: ActiveClass_new_def ActiveClassScope_ctor_def)

section \<open>Properties of the region trackers\<close>

subsection \<open>The finally block\<close>

text \<open>
  C2, as amended: a \<^verbatim>\<open>TryFinallyBlock\<close> records the finalizer's tree offset, the
  context depth of the builder at its construction, and the try depth of the builder at
  its construction minus one (the finalizer runs outside the try block); the three
  accessors return these values, also after the builder's depths have changed.
\<close>

theorem C2_try_finally_block_records:
  "map_option TryFinallyBlock_finalizer_kernel_offset
       (TryFinallyBlock_at (TryFinallyBlock_ctor cti this fko s) this) = Some fko
   \<and> map_option TryFinallyBlock_context_depth
       (TryFinallyBlock_at (TryFinallyBlock_ctor cti this fko s) this) = Some (context_depth s)
   \<and> map_option TryFinallyBlock_try_depth
       (TryFinallyBlock_at (TryFinallyBlock_ctor cti this fko s) this) = Some (try_depth s - 1)
   \<and> TryFinallyBlock_at ((TryFinallyBlock_ctor cti this fko s)\<lparr>context_depth := d, try_depth := t\<rparr>) this
       = TryFinallyBlock_at (TryFinallyBlock_ctor cti this fko s) this"
  by (simp add: TryFinallyBlock_ctor_def TryFinallyBlock_finalizer_kernel_offset_def
      TryFinallyBlock_context_depth_def TryFinallyBlock_try_depth_def)

theorem C2_try_depth_counterexample:
  "map_option TryFinallyBlock_try_depth
       (TryFinallyBlock_at (TryFinallyBlock_ctor (\<lambda>s. - 1) 7 100 example_translation) 7) = Some 0
   \<and> try_depth example_translation = 1
   \<and> map_option TryFinallyBlock_try_depth
       (TryFinallyBlock_at (TryFinallyBlock_ctor (\<lambda>s. - 1) 7 100 example_translation) 7)
      \<noteq> Some (try_depth example_translation)"
  by (simp add: TryFinallyBlock_ctor_def TryFinallyBlock_try_depth_def example_translation_def)

theorem C2_try_finally_block_records_witness:
  "map_option TryFinallyBlock_finalizer_kernel_offset
       (TryFinallyBlock_at (TryFinallyBlock_ctor (\<lambda>s. - 1) 7 100 example_translation) 7) = Some 100
   \<and> map_option TryFinallyBlock_context_depth
       (TryFinallyBlock_at (TryFinallyBlock_ctor (\<lambda>s. - 1) 7 100 example_translation) 7) = Some 2
   \<and> map_option TryFinallyBlock_try_depth
       (TryFinallyBlock_at (TryFinallyBlock_ctor (\<lambda>s. - 1) 7 100 example_translation) 7) = Some 0"
  using C2_try_finally_block_records [of "\<lambda>s. - 1" 7 100 example_translation]
  by (simp add: example_translation_def)

subsection \<open>Linking and unlinking\<close>

lemma TryCatchBlock_links:
  "try_catch_block (TryCatchBlock_ctor this h s) = Some this
   \<and> map_option TryCatchBlock_outer (TryCatchBlock_at (TryCatchBlock_ctor this h s) this)
       = Some (try_catch_block s)"
  by (simp add: TryCatchBlock_ctor_def TryCatchBlock_outer_def AllocateTryIndex_def Let_def
      split: prod.splits)

lemma TryFinallyBlock_links:
  "try_finally_block (TryFinallyBlock_ctor cti this fko s) = Some this
   \<and> map_option TryFinallyBlock_outer
        (TryFinallyBlock_at (TryFinallyBlock_ctor cti this fko s) this)
       = Some (try_finally_block s)"
  by (simp add: TryFinallyBlock_ctor_def TryFinallyBlock_outer_def)

lemma CatchBlock_links:
  "catch_block (CatchBlock_ctor this ev sv i s) = Some this
   \<and> map_option cb_outer (CatchBlock_at (CatchBlock_ctor this ev sv i s) this)
       = Some (catch_block s)"
  by (simp add: CatchBlock_ctor_def)

lemma SwitchBlock_links:
  assumes "SwitchBlock_ctor cti this n s = Inr s1"
  shows "switch_block s1 = Some this
       \<and> map_option sw_outer (SwitchBlock_at s1 this) = Some (switch_block s)"
  using assms
  by (auto simp: SwitchBlock_ctor_def Let_def split: option.splits sum.splits)

lemma SwitchBlock_ctor_total:
  assumes "switch_block s = None \<or> (\<exists>oa. switch_block s = Some oa \<and> SwitchBlock_at s oa \<noteq> None)"
  shows "\<exists>s1. SwitchBlock_ctor cti this n s = Inr s1"
  using assms
  by (auto simp: SwitchBlock_ctor_def Let_def split: option.splits sum.splits)

lemma BreakableBlock_links:
  assumes "BreakableBlock_ctor cti this s = Inr s1"
  shows "breakable_block s1 = Some this
       \<and> map_option bb_outer (BreakableBlock_at s1 this) = Some (breakable_block s)"
  using assms
  by (auto simp: BreakableBlock_ctor_def Let_def split: option.splits sum.splits)

lemma BreakableBlock_ctor_total:
  assumes "breakable_block s = None
           \<or> (\<exists>oa. breakable_block s = Some oa \<and> BreakableBlock_at s oa \<noteq> None)"
  shows "\<exists>s1. BreakableBlock_ctor cti this s = Inr s1"
  using assms
  by (auto simp: BreakableBlock_ctor_def Let_def split: option.splits sum.splits)

text \<open>
  The destructors read nothing of a tracker but its \<^verbatim>\<open>outer_\<close>, and the methods
  that write to a tracker after its construction (\<^verbatim>\<open>EnsureDestination\<close>, reached
  through \<^verbatim>\<open>Destination\<close>, \<^verbatim>\<open>DestinationDirect\<close> and \<^verbatim>\<open>BreakDestination\<close>)
  leave every \<^verbatim>\<open>outer_\<close> and the builder's pointers as they are.
\<close>

lemma TryCatchBlock_restores:
  assumes "map_option TryCatchBlock_outer (TryCatchBlock_at later this) = Some outer_ptr"
  shows "map_sum id try_catch_block (TryCatchBlock_dtor this later) = Inr outer_ptr"
  using assms
  by (auto simp: TryCatchBlock_dtor_def TryCatchBlock_outer_def split: option.splits)

lemma TryFinallyBlock_restores:
  assumes "map_option TryFinallyBlock_outer (TryFinallyBlock_at later this) = Some outer_ptr"
  shows "map_sum id try_finally_block (TryFinallyBlock_dtor this later) = Inr outer_ptr"
  using assms
  by (auto simp: TryFinallyBlock_dtor_def TryFinallyBlock_outer_def split: option.splits)

lemma CatchBlock_restores:
  assumes "map_option cb_outer (CatchBlock_at later this) = Some outer_ptr"
  shows "map_sum id catch_block (CatchBlock_dtor this later) = Inr outer_ptr"
  using assms by (auto simp: CatchBlock_dtor_def split: option.splits)

lemma SwitchBlock_restores:
  assumes "map_option sw_outer (SwitchBlock_at later this) = Some outer_ptr"
  shows "map_sum id switch_block (SwitchBlock_dtor this later) = Inr outer_ptr"
  using assms by (auto simp: SwitchBlock_dtor_def split: option.splits)

lemma BreakableBlock_restores:
  assumes "map_option bb_outer (BreakableBlock_at later this) = Some outer_ptr"
  shows "map_sum id breakable_block (BreakableBlock_dtor this later) = Inr outer_ptr"
  using assms by (auto simp: BreakableBlock_dtor_def split: option.splits)

lemma SwitchBlock_EnsureDestination_keeps_outer:
  assumes "SwitchBlock_EnsureDestination a k later = Inr (inst, later2)"
  shows "map_option sw_outer (SwitchBlock_at later2 this)
           = map_option sw_outer (SwitchBlock_at later this)
       \<and> switch_block later2 = switch_block later"
  using assms
  by (auto simp: SwitchBlock_EnsureDestination_def BuildJoinEntry_def AllocateBlockId_def
      Let_def split: option.splits if_splits)

lemma SwitchBlock_Destination_keeps_outer:
  assumes "SwitchBlock_Destination x N outs_f outs_c later = Some (Inr (jump, later2))"
  shows "map_option sw_outer (SwitchBlock_at later2 this)
           = map_option sw_outer (SwitchBlock_at later this)
       \<and> switch_block later2 = switch_block later"
proof -
  from assms obtain a k inst where
    "SwitchBlock_EnsureDestination a k later = Inr (inst, later2)"
    by (auto simp: SwitchBlock_Destination_def split: option.splits sum.splits if_splits)
  then show ?thesis by (rule SwitchBlock_EnsureDestination_keeps_outer)
qed

lemma SwitchBlock_DestinationDirect_keeps_outer:
  assumes "SwitchBlock_DestinationDirect x k outs_f outs_c later = Inr (jump, later2)"
  shows "map_option sw_outer (SwitchBlock_at later2 this)
           = map_option sw_outer (SwitchBlock_at later this)
       \<and> switch_block later2 = switch_block later"
proof -
  from assms obtain inst where
    "SwitchBlock_EnsureDestination x k later = Inr (inst, later2)"
    by (auto simp: SwitchBlock_DestinationDirect_def split: option.splits sum.splits if_splits)
  then show ?thesis by (rule SwitchBlock_EnsureDestination_keeps_outer)
qed

lemma BreakableBlock_EnsureDestination_keeps_outer:
  assumes "BreakableBlock_EnsureDestination a later = Inr (inst, later2)"
  shows "map_option bb_outer (BreakableBlock_at later2 this)
           = map_option bb_outer (BreakableBlock_at later this)
       \<and> breakable_block later2 = breakable_block later"
  using assms
  by (auto simp: BreakableBlock_EnsureDestination_def BuildJoinEntry_def AllocateBlockId_def
      Let_def split: option.splits if_splits)

lemma BreakableBlock_BreakDestination_keeps_outer:
  assumes "BreakableBlock_BreakDestination x l outs_f outs_c later = Some (Inr (jump, later2))"
  shows "map_option bb_outer (BreakableBlock_at later2 this)
           = map_option bb_outer (BreakableBlock_at later this)
       \<and> breakable_block later2 = breakable_block later"
proof -
  from assms obtain a inst where
    "BreakableBlock_EnsureDestination a later = Inr (inst, later2)"
    by (auto simp: BreakableBlock_BreakDestination_def
        split: option.splits sum.splits if_splits)
  then show ?thesis by (rule BreakableBlock_EnsureDestination_keeps_outer)
qed

lemma SwitchBlock_Destinations_keeps_outer:
  assumes "SwitchBlock_Destinations x Ns later = Some (Inr (js, later2))"
  shows "map_option sw_outer (SwitchBlock_at later2 this)
           = map_option sw_outer (SwitchBlock_at later this)
       \<and> switch_block later2 = switch_block later"
  using assms
proof (induction Ns arbitrary: later js)
  case Nil
  then show ?case by simp
next
  case (Cons N Ns)
  from Cons.prems obtain jump mid js' where
    d: "SwitchBlock_Destination x N False False later = Some (Inr (jump, mid))"
    and r: "SwitchBlock_Destinations x Ns mid = Some (Inr (js', later2))"
    by (auto split: option.splits sum.splits)
  from SwitchBlock_Destination_keeps_outer [OF d, of this] Cons.IH [OF r]
  show ?case by simp
qed

lemma BreakableBlock_BreakDestinations_keeps_outer:
  assumes "BreakableBlock_BreakDestinations x ls later = Some (Inr (js, later2))"
  shows "map_option bb_outer (BreakableBlock_at later2 this)
           = map_option bb_outer (BreakableBlock_at later this)
       \<and> breakable_block later2 = breakable_block later"
  using assms
proof (induction ls arbitrary: later js)
  case Nil
  then show ?case by simp
next
  case (Cons l ls)
  from Cons.prems obtain jump mid js' where
    d: "BreakableBlock_BreakDestination x l True True later = Some (Inr (jump, mid))"
    and r: "BreakableBlock_BreakDestinations x ls mid = Some (Inr (js', later2))"
    by (auto split: option.splits sum.splits)
  from BreakableBlock_BreakDestination_keeps_outer [OF d, of this] Cons.IH [OF r]
  show ?case by simp
qed

lemma SwitchBlock_jumped_to_restores:
  assumes "SwitchBlock_ctor cti this n s = Inr s_sw"
    and "SwitchBlock_Destinations x Ns s_sw = Some (Inr (js, jumped))"
  shows "map_sum id switch_block (SwitchBlock_dtor this jumped) = Inr (switch_block s)"
proof -
  from SwitchBlock_links [OF assms(1)] SwitchBlock_Destinations_keeps_outer [OF assms(2), of this]
  have "map_option sw_outer (SwitchBlock_at jumped this) = Some (switch_block s)" by simp
  then show ?thesis by (rule SwitchBlock_restores)
qed

lemma BreakableBlock_jumped_to_restores:
  assumes "BreakableBlock_ctor cti this s = Inr s_bb"
    and "BreakableBlock_BreakDestinations x ls s_bb = Some (Inr (js, jumped))"
  shows "map_sum id breakable_block (BreakableBlock_dtor this jumped)
         = Inr (breakable_block s)"
proof -
  from BreakableBlock_links [OF assms(1)]
    BreakableBlock_BreakDestinations_keeps_outer [OF assms(2), of this]
  have "map_option bb_outer (BreakableBlock_at jumped this) = Some (breakable_block s)"
    by simp
  then show ?thesis by (rule BreakableBlock_restores)
qed

text \<open>
  C4: for each of the five kinds of tracker, the constructor makes the new tracker the
  builder's innermost one and stores the previous innermost one as its \<^verbatim>\<open>outer_\<close>;
  the destructor, run in any later state in which the tracker is live and has that
  \<^verbatim>\<open>outer_\<close>, sets the builder's pointer back to the value it had before the
  construction, whatever else the tracker and the builder hold by then. Materialising a
  destination in a switch or breakable block changes neither an \<^verbatim>\<open>outer_\<close> nor the
  builder's pointer, so a block that was jumped to, any number of times, is popped like
  any other. The
  constructors of the switch and breakable blocks read the previous innermost block and
  succeed whenever the builder has none or points to a live one.
\<close>

theorem C4_trackers_link_and_restore:
  "try_catch_block (TryCatchBlock_ctor this h s) = Some this
   \<and> map_option TryCatchBlock_outer (TryCatchBlock_at (TryCatchBlock_ctor this h s) this)
       = Some (try_catch_block s)
   \<and> (map_option TryCatchBlock_outer (TryCatchBlock_at later this) = Some (try_catch_block s)
        \<longrightarrow> map_sum id try_catch_block (TryCatchBlock_dtor this later)
            = Inr (try_catch_block s))
   \<and> try_finally_block (TryFinallyBlock_ctor cti this fko s) = Some this
   \<and> map_option TryFinallyBlock_outer
        (TryFinallyBlock_at (TryFinallyBlock_ctor cti this fko s) this)
       = Some (try_finally_block s)
   \<and> (map_option TryFinallyBlock_outer (TryFinallyBlock_at later this)
          = Some (try_finally_block s)
        \<longrightarrow> map_sum id try_finally_block (TryFinallyBlock_dtor this later)
            = Inr (try_finally_block s))
   \<and> (SwitchBlock_ctor cti this n s = Inr s_sw
        \<longrightarrow> switch_block s_sw = Some this
            \<and> map_option sw_outer (SwitchBlock_at s_sw this) = Some (switch_block s))
   \<and> (map_option sw_outer (SwitchBlock_at later this) = Some (switch_block s)
        \<longrightarrow> map_sum id switch_block (SwitchBlock_dtor this later) = Inr (switch_block s))
   \<and> (SwitchBlock_Destination x N outs_f outs_c later = Some (Inr (jump, later2))
        \<longrightarrow> map_option sw_outer (SwitchBlock_at later2 this)
              = map_option sw_outer (SwitchBlock_at later this)
            \<and> switch_block later2 = switch_block later)
   \<and> (SwitchBlock_DestinationDirect x k outs_f outs_c later = Inr (jump, later2)
        \<longrightarrow> map_option sw_outer (SwitchBlock_at later2 this)
              = map_option sw_outer (SwitchBlock_at later this)
            \<and> switch_block later2 = switch_block later)
   \<and> (BreakableBlock_ctor cti this s = Inr s_bb
        \<longrightarrow> breakable_block s_bb = Some this
            \<and> map_option bb_outer (BreakableBlock_at s_bb this) = Some (breakable_block s))
   \<and> (map_option bb_outer (BreakableBlock_at later this) = Some (breakable_block s)
        \<longrightarrow> map_sum id breakable_block (BreakableBlock_dtor this later)
            = Inr (breakable_block s))
   \<and> (BreakableBlock_BreakDestination x l outs_f outs_c later = Some (Inr (jump, later2))
        \<longrightarrow> map_option bb_outer (BreakableBlock_at later2 this)
              = map_option bb_outer (BreakableBlock_at later this)
            \<and> breakable_block later2 = breakable_block later)
   \<and> catch_block (CatchBlock_ctor this ev sv i s) = Some this
   \<and> map_option cb_outer (CatchBlock_at (CatchBlock_ctor this ev sv i s) this)
       = Some (catch_block s)
   \<and> (map_option cb_outer (CatchBlock_at later this) = Some (catch_block s)
        \<longrightarrow> map_sum id catch_block (CatchBlock_dtor this later) = Inr (catch_block s))
   \<and> (switch_block s = None
          \<or> (\<exists>oa. switch_block s = Some oa \<and> SwitchBlock_at s oa \<noteq> None)
        \<longrightarrow> (\<exists>s1. SwitchBlock_ctor cti this n s = Inr s1))
   \<and> (breakable_block s = None
          \<or> (\<exists>oa. breakable_block s = Some oa \<and> BreakableBlock_at s oa \<noteq> None)
        \<longrightarrow> (\<exists>s1. BreakableBlock_ctor cti this s = Inr s1))
   \<and> (SwitchBlock_ctor cti this n s = Inr s_sw
        \<and> SwitchBlock_Destinations x Ns s_sw = Some (Inr (js, jumped))
        \<longrightarrow> map_sum id switch_block (SwitchBlock_dtor this jumped) = Inr (switch_block s))
   \<and> (BreakableBlock_ctor cti this s = Inr s_bb
        \<and> BreakableBlock_BreakDestinations x ls s_bb = Some (Inr (js, jumped))
        \<longrightarrow> map_sum id breakable_block (BreakableBlock_dtor this jumped)
            = Inr (breakable_block s))"
proof -
  note a = TryCatchBlock_links [of this h s]
    TryCatchBlock_restores [of later this "try_catch_block s"]
    TryFinallyBlock_links [of cti this fko s]
    TryFinallyBlock_restores [of later this "try_finally_block s"]
  note b = SwitchBlock_links [of cti this n s s_sw]
    SwitchBlock_restores [of later this "switch_block s"]
    SwitchBlock_Destination_keeps_outer [of x N outs_f outs_c later jump later2 this]
    SwitchBlock_DestinationDirect_keeps_outer [of x k outs_f outs_c later jump later2 this]
  note c = BreakableBlock_links [of cti this s s_bb]
    BreakableBlock_restores [of later this "breakable_block s"]
    BreakableBlock_BreakDestination_keeps_outer [of x l outs_f outs_c later jump later2 this]
    CatchBlock_links [of this ev sv i s] CatchBlock_restores [of later this "catch_block s"]
  note d = SwitchBlock_ctor_total [of s cti this n] BreakableBlock_ctor_total [of s cti this]
  have e: "map_sum id switch_block (SwitchBlock_dtor this jumped) = Inr (switch_block s)"
    if "SwitchBlock_ctor cti this n s = Inr s_sw
        \<and> SwitchBlock_Destinations x Ns s_sw = Some (Inr (js, jumped))"
    using that SwitchBlock_jumped_to_restores [of cti this n s s_sw x Ns js jumped] by simp
  have f: "map_sum id breakable_block (BreakableBlock_dtor this jumped)
            = Inr (breakable_block s)"
    if "BreakableBlock_ctor cti this s = Inr s_bb
        \<and> BreakableBlock_BreakDestinations x ls s_bb = Some (Inr (js, jumped))"
    using that BreakableBlock_jumped_to_restores [of cti this s s_bb x ls js jumped] by simp
  from a b c d e f show ?thesis by (intro conjI impI) (simp_all only:)
qed


theorem C4_trackers_link_and_restore_witness:
  "map_sum id try_catch_block (TryCatchBlock_dtor 7 example_nested) = Inr None
   \<and> map_sum id try_finally_block (TryFinallyBlock_dtor 7 example_nested) = Inr None
   \<and> map_sum id catch_block (CatchBlock_dtor 7 example_nested) = Inr None
   \<and> (\<exists>s_sw jump later.
         SwitchBlock_ctor (\<lambda>s. - 1) 7 3 example_translation = Inr s_sw
       \<and> SwitchBlock_Destination 7 1 False False s_sw = Some (Inr (jump, later))
       \<and> map_option (\<lambda>b. SwitchBlock_HadJumper b 1) (SwitchBlock_at s_sw 7) = Some False
       \<and> map_option (\<lambda>b. SwitchBlock_HadJumper b 1) (SwitchBlock_at later 7) = Some True
       \<and> map_sum id switch_block (SwitchBlock_dtor 7 later) = Inr None)
   \<and> (\<exists>s_bb jump later.
         BreakableBlock_ctor (\<lambda>s. - 1) 7 example_translation = Inr s_bb
       \<and> BreakableBlock_BreakDestination 7 0 True True s_bb = Some (Inr (jump, later))
       \<and> map_option BreakableBlock_HadJumper (BreakableBlock_at s_bb 7) = Some False
       \<and> map_option BreakableBlock_HadJumper (BreakableBlock_at later 7) = Some True
       \<and> map_sum id breakable_block (BreakableBlock_dtor 7 later) = Inr None)
   \<and> (\<exists>s_sw js jumped.
         SwitchBlock_ctor (\<lambda>s. - 1) 7 3 example_translation = Inr s_sw
       \<and> SwitchBlock_Destinations 7 [1, 0, 1] s_sw = Some (Inr (js, jumped))
       \<and> map_sum id switch_block (SwitchBlock_dtor 7 jumped) = Inr None)
   \<and> (\<exists>s_bb js jumped.
         BreakableBlock_ctor (\<lambda>s. - 1) 7 example_translation = Inr s_bb
       \<and> BreakableBlock_BreakDestinations 7 [0, 0] s_bb = Some (Inr (js, jumped))
       \<and> map_sum id breakable_block (BreakableBlock_dtor 7 jumped) = Inr None)"
proof -
  have tc: "map_option TryCatchBlock_outer (TryCatchBlock_at example_nested 7) = Some None"
    by (simp add: example_nested_def CatchBlock_ctor_def TryFinallyBlock_ctor_def
        TryCatchBlock_ctor_def TryCatchBlock_outer_def AllocateTryIndex_def
        example_translation_def)
  have tf: "map_option TryFinallyBlock_outer (TryFinallyBlock_at example_nested 7) = Some None"
    by (simp add: example_nested_def CatchBlock_ctor_def TryFinallyBlock_ctor_def
        TryCatchBlock_ctor_def TryFinallyBlock_outer_def AllocateTryIndex_def
        example_translation_def)
  have cb: "map_option cb_outer (CatchBlock_at example_nested 7) = Some None"
    by (simp add: example_nested_def CatchBlock_ctor_def TryFinallyBlock_ctor_def
        TryCatchBlock_ctor_def AllocateTryIndex_def example_translation_def)
  have ex: "try_catch_block example_translation = None"
    "try_finally_block example_translation = None" "catch_block example_translation = None"
    "switch_block example_translation = None" "breakable_block example_translation = None"
    by (simp_all add: example_translation_def)
  note nested = C4_trackers_link_and_restore [where this = 7 and s = example_translation
      and later = example_nested]
  from nested tc tf cb ex
  have a: "map_sum id try_catch_block (TryCatchBlock_dtor 7 example_nested) = Inr None"
    "map_sum id try_finally_block (TryFinallyBlock_dtor 7 example_nested) = Inr None"
    "map_sum id catch_block (CatchBlock_dtor 7 example_nested) = Inr None"
    by simp_all
  define s_sw where "s_sw = example_translation
      \<lparr>switch_block := Some 7,
       SwitchBlock_at := [7 \<mapsto> \<lparr>sw_outer = None, sw_destinations = DirectChainedHashMap_new,
          sw_outer_finally = None, sw_case_count = 3, sw_depth = 0, sw_context_depth = 2,
          sw_try_index = - 1\<rparr>]\<rparr>"
  have sw: "SwitchBlock_ctor (\<lambda>s. - 1) 7 3 example_translation = Inr s_sw"
    by (simp add: s_sw_def SwitchBlock_ctor_def example_translation_def)
  obtain jump_sw later_sw where
    d_sw: "SwitchBlock_Destination 7 1 False False s_sw = Some (Inr (jump_sw, later_sw))"
    and j_sw: "map_option (\<lambda>b. SwitchBlock_HadJumper b 1) (SwitchBlock_at later_sw 7) = Some True"
    by (simp add: s_sw_def SwitchBlock_Destination_def SwitchBlock_find.simps
        SwitchBlock_EnsureDestination_def BuildJoinEntry_def AllocateBlockId_def
        SwitchBlock_HadJumper_def IntMap_Lookup_def IntMap_Insert_def
        DirectChainedHashMap_Insert_def DirectChainedHashMap_Lookup_def
        DirectChainedHashMap_new_def default_option_def example_translation_def Let_def)
  have n_sw: "map_option (\<lambda>b. SwitchBlock_HadJumper b 1) (SwitchBlock_at s_sw 7) = Some False"
    by (simp add: s_sw_def SwitchBlock_HadJumper_def IntMap_Lookup_def
        DirectChainedHashMap_Lookup_def DirectChainedHashMap_new_def default_option_def)
  have o_sw: "map_option sw_outer (SwitchBlock_at s_sw 7) = Some None"
    by (simp add: s_sw_def)
  note jumped_sw = C4_trackers_link_and_restore [where this = 7 and s = example_translation
      and later = s_sw and ?later2.0 = later_sw and x = 7 and N = 1 and outs_f = False
      and outs_c = False and jump = jump_sw]
  from jumped_sw d_sw o_sw
  have k_sw: "map_option sw_outer (SwitchBlock_at later_sw 7) = Some None" by simp
  note left_sw = C4_trackers_link_and_restore [where this = 7 and s = example_translation
      and later = later_sw]
  from left_sw k_sw ex
  have r_sw: "map_sum id switch_block (SwitchBlock_dtor 7 later_sw) = Inr None" by simp
  define s_bb where "s_bb = example_translation
      \<lparr>breakable_block := Some 7,
       BreakableBlock_at := [7 \<mapsto> \<lparr>bb_index = 0, bb_outer = None, bb_destination = None,
          bb_outer_finally = None, bb_context_depth = 2, bb_try_index = - 1\<rparr>]\<rparr>"
  have bb: "BreakableBlock_ctor (\<lambda>s. - 1) 7 example_translation = Inr s_bb"
    by (simp add: s_bb_def BreakableBlock_ctor_def example_translation_def)
  obtain jump_bb later_bb where
    d_bb: "BreakableBlock_BreakDestination 7 0 True True s_bb = Some (Inr (jump_bb, later_bb))"
    and j_bb: "map_option BreakableBlock_HadJumper (BreakableBlock_at later_bb 7) = Some True"
    by (simp add: s_bb_def BreakableBlock_BreakDestination_def BreakableBlock_find.simps
        BreakableBlock_EnsureDestination_def BuildJoinEntry_def AllocateBlockId_def
        BreakableBlock_HadJumper_def example_translation_def Let_def)
  have n_bb: "map_option BreakableBlock_HadJumper (BreakableBlock_at s_bb 7) = Some False"
    by (simp add: s_bb_def BreakableBlock_HadJumper_def)
  have o_bb: "map_option bb_outer (BreakableBlock_at s_bb 7) = Some None"
    by (simp add: s_bb_def)
  note jumped_bb = C4_trackers_link_and_restore [where this = 7 and s = example_translation
      and later = s_bb and ?later2.0 = later_bb and x = 7 and l = 0 and outs_f = True
      and outs_c = True and jump = jump_bb]
  from jumped_bb d_bb o_bb
  have k_bb: "map_option bb_outer (BreakableBlock_at later_bb 7) = Some None" by simp
  note left_bb = C4_trackers_link_and_restore [where this = 7 and s = example_translation
      and later = later_bb]
  from left_bb k_bb ex
  have r_bb: "map_sum id breakable_block (BreakableBlock_dtor 7 later_bb) = Inr None" by simp
  from sw d_sw n_sw j_sw r_sw
  have switch: "\<exists>s_sw jump later.
         SwitchBlock_ctor (\<lambda>s. - 1) 7 3 example_translation = Inr s_sw
       \<and> SwitchBlock_Destination 7 1 False False s_sw = Some (Inr (jump, later))
       \<and> map_option (\<lambda>b. SwitchBlock_HadJumper b 1) (SwitchBlock_at s_sw 7) = Some False
       \<and> map_option (\<lambda>b. SwitchBlock_HadJumper b 1) (SwitchBlock_at later 7) = Some True
       \<and> map_sum id switch_block (SwitchBlock_dtor 7 later) = Inr None"
    by blast
  from bb d_bb n_bb j_bb r_bb
  have breakable: "\<exists>s_bb jump later.
         BreakableBlock_ctor (\<lambda>s. - 1) 7 example_translation = Inr s_bb
       \<and> BreakableBlock_BreakDestination 7 0 True True s_bb = Some (Inr (jump, later))
       \<and> map_option BreakableBlock_HadJumper (BreakableBlock_at s_bb 7) = Some False
       \<and> map_option BreakableBlock_HadJumper (BreakableBlock_at later 7) = Some True
       \<and> map_sum id breakable_block (BreakableBlock_dtor 7 later) = Inr None"
    by blast
  obtain js_sw run_sw where
    run1: "SwitchBlock_Destinations 7 [1, 0, 1] s_sw = Some (Inr (js_sw, run_sw))"
    by (simp add: s_sw_def SwitchBlock_Destination_def SwitchBlock_find.simps
        SwitchBlock_EnsureDestination_def BuildJoinEntry_def AllocateBlockId_def
        IntMap_Lookup_def IntMap_Insert_def DirectChainedHashMap_Insert_def
        DirectChainedHashMap_Lookup_def DirectChainedHashMap_new_def default_option_def
        example_translation_def Let_def)
  from C4_trackers_link_and_restore [where this = 7 and s = example_translation
      and cti = "\<lambda>s. - 1" and n = 3 and s_sw = s_sw and x = 7 and Ns = "[1, 0, 1]"
      and js = js_sw and jumped = run_sw] sw run1 ex
  have switch_run: "map_sum id switch_block (SwitchBlock_dtor 7 run_sw) = Inr None" by simp
  with sw run1
  have switch_run': "\<exists>s_sw js jumped.
         SwitchBlock_ctor (\<lambda>s. - 1) 7 3 example_translation = Inr s_sw
       \<and> SwitchBlock_Destinations 7 [1, 0, 1] s_sw = Some (Inr (js, jumped))
       \<and> map_sum id switch_block (SwitchBlock_dtor 7 jumped) = Inr None"
    by blast
  obtain js_bb run_bb where
    run2: "BreakableBlock_BreakDestinations 7 [0, 0] s_bb = Some (Inr (js_bb, run_bb))"
    by (simp add: s_bb_def BreakableBlock_BreakDestination_def BreakableBlock_find.simps
        BreakableBlock_EnsureDestination_def BuildJoinEntry_def AllocateBlockId_def
        example_translation_def Let_def)
  from C4_trackers_link_and_restore [where this = 7 and s = example_translation
      and cti = "\<lambda>s. - 1" and s_bb = s_bb and x = 7 and ls = "[0, 0]"
      and js = js_bb and jumped = run_bb] bb run2 ex
  have breakable_run: "map_sum id breakable_block (BreakableBlock_dtor 7 run_bb) = Inr None"
    by simp
  with bb run2
  have breakable_run': "\<exists>s_bb js jumped.
         BreakableBlock_ctor (\<lambda>s. - 1) 7 example_translation = Inr s_bb
       \<and> BreakableBlock_BreakDestinations 7 [0, 0] s_bb = Some (Inr (js, jumped))
       \<and> map_sum id breakable_block (BreakableBlock_dtor 7 jumped) = Inr None"
    by blast
  from a switch breakable switch_run' breakable_run' show ?thesis by (intro conjI)
qed

subsection \<open>Try indices\<close>

lemma sint_succ:
  fixes x :: intptr
  assumes "sint x < 2 ^ 63 - 1"
  shows "sint (x + 1) = sint x + 1"
proof -
  have lo: "- (2 ^ 63) \<le> sint x" using sint_ge [of x] by simp
  have "sint (x + 1) = signed_take_bit 63 (sint x + 1)"
    by (simp add: sint_word_ariths)
  also have "\<dots> = sint x + 1"
    using lo assms by (simp add: signed_take_bit_int_eq_self)
  finally show ?thesis .
qed

lemma next_after_ctor:
  "next_used_try_index (TryCatchBlock_ctor this h s)
   = (if h = - 1 then next_used_try_index s + 1 else next_used_try_index s)"
  by (simp add: TryCatchBlock_ctor_def AllocateTryIndex_def)

lemma index_after_ctor:
  "TryCatchBlock_at (TryCatchBlock_ctor this h s) this
   = Some \<lparr>tc_outer = try_catch_block s,
           tc_try_index = (if h = - 1 then next_used_try_index s else h)\<rparr>"
  by (simp add: TryCatchBlock_ctor_def AllocateTryIndex_def)

lemma next_after_dtor:
  "TryCatchBlock_dtor this s = Inr s1 \<Longrightarrow> next_used_try_index s1 = next_used_try_index s"
  by (auto simp: TryCatchBlock_dtor_def split: option.splits)

lemma default_indices_bounds:
  assumes "sint (next_used_try_index s) + int (length evs) < 2 ^ 63"
  shows "\<forall>x \<in> set (default_indices evs s).
           sint (next_used_try_index s) \<le> sint x
           \<and> sint x < sint (next_used_try_index s) + int (length evs)"
  using assms
proof (induction evs arbitrary: s)
  case Nil
  then show ?case by simp
next
  case (Cons ev evs)
  show ?case
  proof (cases ev)
    case (Enter this h)
    let ?s1 = "TryCatchBlock_ctor this h s"
    show ?thesis
    proof (cases "h = - 1")
      case True
      from Cons.prems have small: "sint (next_used_try_index s) < 2 ^ 63 - 1" by simp
      have nx: "sint (next_used_try_index ?s1) = sint (next_used_try_index s) + 1"
        using True sint_succ [OF small] by (simp add: next_after_ctor)
      from Cons.prems nx have "sint (next_used_try_index ?s1) + int (length evs) < 2 ^ 63"
        by simp
      from Cons.IH [OF this] nx True Enter
      show ?thesis
        by (auto simp: index_after_ctor TryCatchBlock_try_index_def Let_def)
    next
      case False
      have nx: "next_used_try_index ?s1 = next_used_try_index s"
        using False by (simp add: next_after_ctor)
      from Cons.prems nx have "sint (next_used_try_index ?s1) + int (length evs) < 2 ^ 63"
        by simp
      from Cons.IH [OF this] nx False Enter
      show ?thesis by (auto simp: Let_def)
    qed
  next
    case (Leave this)
    show ?thesis
    proof (cases "TryCatchBlock_dtor this s")
      case (Inl f)
      with Leave show ?thesis by simp
    next
      case (Inr s1)
      from next_after_dtor [OF Inr] Cons.prems
      have "sint (next_used_try_index s1) + int (length evs) < 2 ^ 63" by simp
      from Cons.IH [OF this] next_after_dtor [OF Inr] Inr Leave
      show ?thesis by auto
    qed
  next
    case Allocate
    let ?s1 = "snd (AllocateTryIndex s)"
    from Cons.prems have small: "sint (next_used_try_index s) < 2 ^ 63 - 1" by simp
    have nx: "sint (next_used_try_index ?s1) = sint (next_used_try_index s) + 1"
      using sint_succ [OF small] by (simp add: AllocateTryIndex_def)
    from Cons.prems nx have "sint (next_used_try_index ?s1) + int (length evs) < 2 ^ 63"
      by simp
    from Cons.IH [OF this] nx Allocate
    show ?thesis by auto
  qed
qed

lemma default_indices_increasing:
  assumes "sint (next_used_try_index s) + int (length evs) < 2 ^ 63"
  shows "sorted_wrt (\<lambda>x y. sint x < sint y) (default_indices evs s)"
  using assms
proof (induction evs arbitrary: s)
  case Nil
  then show ?case by simp
next
  case (Cons ev evs)
  show ?case
  proof (cases ev)
    case (Enter this h)
    let ?s1 = "TryCatchBlock_ctor this h s"
    show ?thesis
    proof (cases "h = - 1")
      case True
      from Cons.prems have small: "sint (next_used_try_index s) < 2 ^ 63 - 1" by simp
      have nx: "sint (next_used_try_index ?s1) = sint (next_used_try_index s) + 1"
        using True sint_succ [OF small] by (simp add: next_after_ctor)
      from Cons.prems nx have b: "sint (next_used_try_index ?s1) + int (length evs) < 2 ^ 63"
        by simp
      from Cons.IH [OF b] default_indices_bounds [OF b] nx True Enter
      show ?thesis
        by (auto simp: index_after_ctor TryCatchBlock_try_index_def Let_def)
    next
      case False
      have nx: "next_used_try_index ?s1 = next_used_try_index s"
        using False by (simp add: next_after_ctor)
      from Cons.prems nx have "sint (next_used_try_index ?s1) + int (length evs) < 2 ^ 63"
        by simp
      from Cons.IH [OF this] False Enter
      show ?thesis by (auto simp: Let_def)
    qed
  next
    case (Leave this)
    show ?thesis
    proof (cases "TryCatchBlock_dtor this s")
      case (Inl f)
      with Leave show ?thesis by simp
    next
      case (Inr s1)
      from next_after_dtor [OF Inr] Cons.prems
      have "sint (next_used_try_index s1) + int (length evs) < 2 ^ 63" by simp
      from Cons.IH [OF this] Inr Leave
      show ?thesis by auto
    qed
  next
    case Allocate
    let ?s1 = "snd (AllocateTryIndex s)"
    from Cons.prems have small: "sint (next_used_try_index s) < 2 ^ 63 - 1" by simp
    have nx: "sint (next_used_try_index ?s1) = sint (next_used_try_index s) + 1"
      using sint_succ [OF small] by (simp add: AllocateTryIndex_def)
    from Cons.prems nx have "sint (next_used_try_index ?s1) + int (length evs) < 2 ^ 63"
      by simp
    from Cons.IH [OF this] Allocate
    show ?thesis by auto
  qed
qed

lemma increasing_distinct:
  "sorted_wrt (\<lambda>x y. sint x < sint y) (xs :: intptr list) \<Longrightarrow> distinct xs"
  by (induction xs) auto

text \<open>
  C8: a \<^verbatim>\<open>TryCatchBlock\<close> constructed without a handler index carries the value
  that \<^verbatim>\<open>AllocateTryIndex\<close> returns, becomes the builder's innermost block and
  records the previously innermost block as its outer. \<^verbatim>\<open>AllocateTryIndex\<close> returns
  the counter and adds one to it, so a second call returns a greater value. In a run of
  one builder in which the counter stays below \<open>2 ^ 63\<close>, the try-indices of the blocks
  constructed without a handler index are strictly increasing in the order of
  construction, hence pairwise different.
\<close>

theorem C8_fresh_try_indices:
  assumes "sint (next_used_try_index s) + int (length evs) < 2 ^ 63"
  shows "TryCatchBlock_at (TryCatchBlock_ctor_default this s) this
           = Some \<lparr>tc_outer = try_catch_block s, tc_try_index = fst (AllocateTryIndex s)\<rparr>
       \<and> try_catch_block (TryCatchBlock_ctor_default this s) = Some this
       \<and> next_used_try_index (TryCatchBlock_ctor_default this s)
           = next_used_try_index (snd (AllocateTryIndex s))
       \<and> fst (AllocateTryIndex s) = next_used_try_index s
       \<and> next_used_try_index (snd (AllocateTryIndex s)) = next_used_try_index s + 1
       \<and> (evs \<noteq> []
            \<longrightarrow> sint (fst (AllocateTryIndex s))
                < sint (fst (AllocateTryIndex (snd (AllocateTryIndex s)))))
       \<and> sorted_wrt (\<lambda>x y. sint x < sint y) (default_indices evs s)
       \<and> distinct (default_indices evs s)"
proof -
  have "sint (fst (AllocateTryIndex s)) < sint (fst (AllocateTryIndex (snd (AllocateTryIndex s))))"
    if "evs \<noteq> []"
  proof -
    from that have "1 \<le> int (length evs)" by (cases evs) simp_all
    with assms have "sint (next_used_try_index s) < 2 ^ 63 - 1" by linarith
    from sint_succ [OF this] show ?thesis by (simp add: AllocateTryIndex_def)
  qed
  moreover note default_indices_increasing [OF assms]
  moreover from this have "distinct (default_indices evs s)" by (rule increasing_distinct)
  moreover have "try_catch_block (TryCatchBlock_ctor this (- 1) s) = Some this"
    by (simp add: TryCatchBlock_ctor_def AllocateTryIndex_def)
  ultimately show ?thesis
    by (simp add: TryCatchBlock_ctor_default_def index_after_ctor next_after_ctor
        AllocateTryIndex_def)
qed

theorem C8_fresh_try_indices_witness:
  "default_indices [Enter 1 (- 1), Allocate, Enter 2 5, Enter 3 (- 1), Leave 3, Enter 4 (- 1)]
      example_translation = [0, 2, 3]
   \<and> sorted_wrt (\<lambda>x y. sint x < sint y)
       (default_indices
          [Enter 1 (- 1), Allocate, Enter 2 5, Enter 3 (- 1), Leave 3, Enter 4 (- 1)]
          example_translation)
   \<and> TryCatchBlock_at (TryCatchBlock_ctor_default 9 example_translation) 9
       = Some \<lparr>tc_outer = None, tc_try_index = 0\<rparr>
   \<and> sint (fst (AllocateTryIndex example_translation))
       < sint (fst (AllocateTryIndex (snd (AllocateTryIndex example_translation))))"
proof -
  have b: "sint (next_used_try_index example_translation)
           + int (length [Enter 1 (- 1), Allocate, Enter 2 5, Enter 3 (- 1), Leave 3,
                          Enter 4 (- 1)]) < 2 ^ 63"
    by (simp add: example_translation_def)
  have v: "default_indices
             [Enter 1 (- 1), Allocate, Enter 2 5, Enter 3 (- 1), Leave 3, Enter 4 (- 1)]
             example_translation = [0, 2, 3]"
    by (simp add: TryCatchBlock_ctor_def AllocateTryIndex_def TryCatchBlock_dtor_def
        TryCatchBlock_try_index_def example_translation_def)
  have e: "try_catch_block example_translation = None"
    "fst (AllocateTryIndex example_translation) = 0"
    by (simp_all add: example_translation_def AllocateTryIndex_def)
  from C8_fresh_try_indices [OF b, of 9] v e show ?thesis by simp
qed

subsection \<open>Switch-case destinations\<close>

lemma IntMap_Lookup_Insert:
  "IntMap_Lookup (IntMap_Insert m k v) k' = (if k' = k then v else IntMap_Lookup m k')"
  by (simp add: IntMap_Lookup_def IntMap_Insert_def DirectChainedHashMap_Insert_def
      DirectChainedHashMap_Lookup_def default_option_def)

lemma SwitchBlock_at_or_below_Some:
  "h x = Some blk \<Longrightarrow> SwitchBlock_at_or_below h t x = (sint (sw_depth blk) \<le> sint t)"
  by (simp add: SwitchBlock_at_or_below_def)

lemma SwitchBlock_find_on_chain:
  assumes "SwitchBlock_chain h p as"
    and "find (SwitchBlock_at_or_below h t) as = Some a"
  shows "SwitchBlock_find h p t = Some (Inr a)"
  using assms
proof (induction as arbitrary: p)
  case Nil
  then show ?case by simp
next
  case (Cons x xs)
  from Cons.prems(1) obtain blk where p: "p = Some x" and hx: "h x = Some blk"
    and rest: "SwitchBlock_chain h (sw_outer blk) xs"
    by (auto split: option.splits)
  show ?case
  proof (cases "sint (sw_depth blk) \<le> sint t")
    case True
    with Cons.prems(2) hx have "a = x" by (simp add: SwitchBlock_at_or_below_Some)
    with True p hx show ?thesis by (subst SwitchBlock_find.simps) simp
  next
    case False
    with Cons.prems(2) hx have "find (SwitchBlock_at_or_below h t) xs = Some a"
      by (simp add: SwitchBlock_at_or_below_Some)
    from Cons.IH [OF rest this] False p hx
    show ?thesis by (subst SwitchBlock_find.simps) simp
  qed
qed

lemma find_at_or_below_exists:
  assumes "\<exists>a \<in> set as. SwitchBlock_in_range h t a"
  shows "\<exists>a blk. find (SwitchBlock_at_or_below h t) as = Some a \<and> h a = Some blk
                 \<and> sint (sw_depth blk) \<le> sint t"
proof -
  from assms obtain x where "x \<in> set as" and "SwitchBlock_at_or_below h t x"
    by (auto simp: SwitchBlock_in_range_def SwitchBlock_at_or_below_def split: option.splits)
  then have "find (SwitchBlock_at_or_below h t) as \<noteq> None"
    by (auto simp: find_None_iff)
  then obtain a where f: "find (SwitchBlock_at_or_below h t) as = Some a" by auto
  then have "SwitchBlock_at_or_below h t a" by (auto simp: find_Some_iff)
  with f show ?thesis
    by (auto simp: SwitchBlock_at_or_below_def split: option.splits)
qed

lemma SwitchBlock_EnsureDestination_new:
  assumes "SwitchBlock_at s a = Some blk" and "IntMap_Lookup (sw_destinations blk) k = None"
  shows "SwitchBlock_EnsureDestination a k s =
           Inr (Some (length (zone s)),
                s\<lparr>last_used_block_id := last_used_block_id s + 1,
                  zone := zone s @ [\<lparr>join_block_id = last_used_block_id s + 1,
                                     join_try_index = sw_try_index blk\<rparr>],
                  SwitchBlock_at := (SwitchBlock_at s)
                    (a \<mapsto> blk\<lparr>sw_destinations :=
                                IntMap_Insert (sw_destinations blk) k (Some (length (zone s)))\<rparr>)\<rparr>)"
  using assms
  by (simp add: SwitchBlock_EnsureDestination_def BuildJoinEntry_def AllocateBlockId_def)

lemma SwitchBlock_EnsureDestination_cached:
  assumes "SwitchBlock_at s a = Some blk" and "IntMap_Lookup (sw_destinations blk) k = Some j"
  shows "SwitchBlock_EnsureDestination a k s = Inr (Some j, s)"
  using assms by (simp add: SwitchBlock_EnsureDestination_def)

lemma SwitchBlock_chain_shape:
  assumes "\<And>x. map_option sw_outer (h' x) = map_option sw_outer (h x)"
  shows "SwitchBlock_chain h' p as = SwitchBlock_chain h p as"
proof (induction as arbitrary: p)
  case Nil
  show ?case by simp
next
  case (Cons x xs)
  show ?case
  proof (cases "h x")
    case None
    with assms [of x] show ?thesis by simp
  next
    case (Some blk)
    with assms [of x] obtain blk' where "h' x = Some blk'" and "sw_outer blk' = sw_outer blk"
      by auto
    with Some Cons.IH [of "sw_outer blk"] show ?thesis by simp
  qed
qed

lemma SwitchBlock_at_or_below_shape:
  assumes "map_option sw_depth (h' x) = map_option sw_depth (h x)"
  shows "SwitchBlock_at_or_below h' t x = SwitchBlock_at_or_below h t x"
  using assms by (auto simp: SwitchBlock_at_or_below_def split: option.splits)

lemma shape_outer:
  "SwitchBlock_shape s1 = SwitchBlock_shape s
   \<Longrightarrow> map_option sw_outer (SwitchBlock_at s1 x) = map_option sw_outer (SwitchBlock_at s x)"
proof -
  assume "SwitchBlock_shape s1 = SwitchBlock_shape s"
  then have "SwitchBlock_shape s1 x = SwitchBlock_shape s x" by simp
  then show ?thesis
    by (cases "SwitchBlock_at s1 x"; cases "SwitchBlock_at s x")
      (simp_all add: SwitchBlock_shape_def)
qed

lemma shape_depth:
  "SwitchBlock_shape s1 = SwitchBlock_shape s
   \<Longrightarrow> map_option sw_depth (SwitchBlock_at s1 x) = map_option sw_depth (SwitchBlock_at s x)"
proof -
  assume "SwitchBlock_shape s1 = SwitchBlock_shape s"
  then have "SwitchBlock_shape s1 x = SwitchBlock_shape s x" by simp
  then show ?thesis
    by (cases "SwitchBlock_at s1 x"; cases "SwitchBlock_at s x")
      (simp_all add: SwitchBlock_shape_def)
qed

lemma shape_chain:
  "SwitchBlock_shape s1 = SwitchBlock_shape s
   \<Longrightarrow> SwitchBlock_chain (SwitchBlock_at s1) p as = SwitchBlock_chain (SwitchBlock_at s) p as"
  by (rule SwitchBlock_chain_shape) (rule shape_outer)

lemma shape_find:
  assumes "SwitchBlock_shape s1 = SwitchBlock_shape s"
  shows "find (SwitchBlock_at_or_below (SwitchBlock_at s1) t) as
         = find (SwitchBlock_at_or_below (SwitchBlock_at s) t) as"
proof -
  have "SwitchBlock_at_or_below (SwitchBlock_at s1) t = SwitchBlock_at_or_below (SwitchBlock_at s) t"
    by (rule ext) (rule SwitchBlock_at_or_below_shape, rule shape_depth [OF assms])
  then show ?thesis by simp
qed

lemma SwitchBlock_Destination_step:
  assumes chain: "SwitchBlock_chain (SwitchBlock_at s) (Some this) as"
    and found: "find (SwitchBlock_at_or_below (SwitchBlock_at s) N) as = Some a"
    and blk: "SwitchBlock_at s a = Some block"
    and outs: "outer_finally \<longrightarrow> context_depth_out"
  shows "\<exists>inst s1.
           SwitchBlock_Destination this N outer_finally context_depth_out s
             = Some (Inr (\<lparr>jump_destination = inst,
                           written_outer_finally =
                             (if outer_finally then Some (sw_outer_finally block) else None),
                           written_context_depth =
                             (if outer_finally then Some (sw_context_depth block) else None)\<rparr>,
                          s1))
         \<and> SwitchBlock_EnsureDestination a (N - sw_depth block) s = Inr (inst, s1)"
proof -
  from SwitchBlock_find_on_chain [OF chain found]
  have w: "SwitchBlock_find (SwitchBlock_at s) (Some this) N = Some (Inr a)" .
  obtain inst s1 where e: "SwitchBlock_EnsureDestination a (N - sw_depth block) s = Inr (inst, s1)"
    using blk
    by (cases "IntMap_Lookup (sw_destinations block) (N - sw_depth block)")
      (auto simp: SwitchBlock_EnsureDestination_new SwitchBlock_EnsureDestination_cached)
  from w blk e outs show ?thesis
    by (auto simp: SwitchBlock_Destination_def)
qed

lemma SwitchBlock_EnsureDestination_cases:
  assumes blk: "SwitchBlock_at s a = Some block"
    and e: "SwitchBlock_EnsureDestination a k s = Inr (inst, s1)"
  obtains (fresh) "IntMap_Lookup (sw_destinations block) k = None"
      "inst = Some (length (zone s))"
      "s1 = s\<lparr>last_used_block_id := last_used_block_id s + 1,
                zone := zone s @ [\<lparr>join_block_id = last_used_block_id s + 1,
                                   join_try_index = sw_try_index block\<rparr>],
                SwitchBlock_at := (SwitchBlock_at s)
                  (a \<mapsto> block\<lparr>sw_destinations :=
                                IntMap_Insert (sw_destinations block) k (Some (length (zone s)))\<rparr>)\<rparr>"
    | (cached) j where "IntMap_Lookup (sw_destinations block) k = Some j"
      "inst = Some j" "s1 = s"
proof (cases "IntMap_Lookup (sw_destinations block) k")
  case None
  from SwitchBlock_EnsureDestination_new [OF blk None] e fresh [OF None] show ?thesis by simp
next
  case (Some j)
  from SwitchBlock_EnsureDestination_cached [OF blk Some] e cached [OF Some] show ?thesis
    by simp
qed

lemma SwitchBlock_EnsureDestination_effect:
  assumes blk: "SwitchBlock_at s a = Some block"
    and e: "SwitchBlock_EnsureDestination a k s = Inr (inst, s1)"
  shows "inst \<noteq> None"
    and "SwitchBlock_join_of s1 a k = inst"
    and "SwitchBlock_shape s1 = SwitchBlock_shape s"
    and "\<And>x k' j. SwitchBlock_join_of s x k' = Some j \<Longrightarrow> SwitchBlock_join_of s1 x k' = Some j"
    and "\<And>x k'. (x, k') \<noteq> (a, k) \<Longrightarrow> SwitchBlock_join_of s1 x k' = SwitchBlock_join_of s x k'"
proof -
  show "inst \<noteq> None"
    using blk e by (rule SwitchBlock_EnsureDestination_cases) simp_all
  show "SwitchBlock_join_of s1 a k = inst"
    using blk e
    by (rule SwitchBlock_EnsureDestination_cases)
      (simp_all add: blk SwitchBlock_join_of_def IntMap_Lookup_Insert)
  show "SwitchBlock_shape s1 = SwitchBlock_shape s"
    using blk e
    by (rule SwitchBlock_EnsureDestination_cases)
      (auto simp: blk SwitchBlock_shape_def fun_eq_iff)
  show "SwitchBlock_join_of s1 x k' = Some j" if "SwitchBlock_join_of s x k' = Some j" for x k' j
    using blk e
  proof (rule SwitchBlock_EnsureDestination_cases)
    assume "IntMap_Lookup (sw_destinations block) k = None"
      and "inst = Some (length (zone s))"
      and "s1 = s\<lparr>last_used_block_id := last_used_block_id s + 1,
                zone := zone s @ [\<lparr>join_block_id = last_used_block_id s + 1,
                                   join_try_index = sw_try_index block\<rparr>],
                SwitchBlock_at := (SwitchBlock_at s)
                  (a \<mapsto> block\<lparr>sw_destinations :=
                                IntMap_Insert (sw_destinations block) k (Some (length (zone s)))\<rparr>)\<rparr>"
    with that blk show ?thesis
      by (auto simp: SwitchBlock_join_of_def IntMap_Lookup_Insert split: option.splits)
  next
    fix j' assume "s1 = s"
    with that show ?thesis by simp
  qed
  show "SwitchBlock_join_of s1 x k' = SwitchBlock_join_of s x k'" if "(x, k') \<noteq> (a, k)" for x k'
    using blk e
  proof (rule SwitchBlock_EnsureDestination_cases)
    assume "s1 = s\<lparr>last_used_block_id := last_used_block_id s + 1,
                zone := zone s @ [\<lparr>join_block_id = last_used_block_id s + 1,
                                   join_try_index = sw_try_index block\<rparr>],
                SwitchBlock_at := (SwitchBlock_at s)
                  (a \<mapsto> block\<lparr>sw_destinations :=
                                IntMap_Insert (sw_destinations block) k (Some (length (zone s)))\<rparr>)\<rparr>"
    with that blk show ?thesis
      by (auto simp: SwitchBlock_join_of_def IntMap_Lookup_Insert split: option.splits)
  next
    assume "s1 = s"
    then show ?thesis by simp
  qed
qed

lemma find_at_or_below_block:
  assumes "find (SwitchBlock_at_or_below h t) as = Some a"
  obtains blk where "h a = Some blk" and "sint (sw_depth blk) \<le> sint t"
proof -
  from assms have "SwitchBlock_at_or_below h t a" by (auto simp: find_Some_iff)
  with that show ?thesis
    by (auto simp: SwitchBlock_at_or_below_def split: option.splits)
qed

lemma SwitchBlock_resolved_eq:
  assumes "find (SwitchBlock_at_or_below (SwitchBlock_at s) N) as = Some a"
    and "SwitchBlock_at s a = Some blk"
  shows "SwitchBlock_resolved s as N = SwitchBlock_join_of s a (N - sw_depth blk)"
  using assms by (simp add: SwitchBlock_resolved_def SwitchBlock_join_of_def)

lemma SwitchBlock_Destinations_run:
  assumes "SwitchBlock_chain (SwitchBlock_at s) (Some this) as"
    and "\<forall>N \<in> set Ns. find (SwitchBlock_at_or_below (SwitchBlock_at s) N) as \<noteq> None"
  shows "\<exists>js s2. SwitchBlock_Destinations this Ns s = Some (Inr (js, s2))
           \<and> SwitchBlock_shape s2 = SwitchBlock_shape s
           \<and> (\<forall>x k j. SwitchBlock_join_of s x k = Some j \<longrightarrow> SwitchBlock_join_of s2 x k = Some j)
           \<and> js = map (SwitchBlock_resolved s2 as) Ns
           \<and> None \<notin> set js"
  using assms
proof (induction Ns arbitrary: s)
  case Nil
  then show ?case by simp
next
  case (Cons N Ns)
  from Cons.prems(2) obtain a where found: "find (SwitchBlock_at_or_below (SwitchBlock_at s) N) as = Some a"
    by auto
  from find_at_or_below_block [OF found] obtain block where blk: "SwitchBlock_at s a = Some block"
    by blast
  from SwitchBlock_Destination_step [OF Cons.prems(1) found blk, of False False]
  obtain inst s1 where
    d: "SwitchBlock_Destination this N False False s
          = Some (Inr (\<lparr>jump_destination = inst, written_outer_finally = None,
                        written_context_depth = None\<rparr>, s1))"
    and e: "SwitchBlock_EnsureDestination a (N - sw_depth block) s = Inr (inst, s1)"
    by auto
  note eff = SwitchBlock_EnsureDestination_effect [OF blk e]
  from eff(1) obtain j where inst: "inst = Some j" by auto
  have chain1: "SwitchBlock_chain (SwitchBlock_at s1) (Some this) as"
    using Cons.prems(1) shape_chain [OF eff(3)] by simp
  have finds1: "\<forall>M \<in> set Ns. find (SwitchBlock_at_or_below (SwitchBlock_at s1) M) as \<noteq> None"
    using Cons.prems(2) shape_find [OF eff(3)] by simp
  from Cons.IH [OF chain1 finds1] obtain js s2 where
    run: "SwitchBlock_Destinations this Ns s1 = Some (Inr (js, s2))"
    and shape2: "SwitchBlock_shape s2 = SwitchBlock_shape s1"
    and mono2: "\<And>x k j. SwitchBlock_join_of s1 x k = Some j \<Longrightarrow> SwitchBlock_join_of s2 x k = Some j"
    and js: "js = map (SwitchBlock_resolved s2 as) Ns"
    and nn: "None \<notin> set js"
    by blast
  have shape: "SwitchBlock_shape s2 = SwitchBlock_shape s" using shape2 eff(3) by simp
  have found2: "find (SwitchBlock_at_or_below (SwitchBlock_at s2) N) as = Some a"
    using found shape_find [OF shape] by simp
  from shape_depth [OF shape, of a] blk obtain block2 where
    blk2: "SwitchBlock_at s2 a = Some block2" and dep: "sw_depth block2 = sw_depth block"
    by auto
  have "SwitchBlock_join_of s2 a (N - sw_depth block) = Some j"
    using mono2 eff(2) inst by simp
  with SwitchBlock_resolved_eq [OF found2 blk2] dep
  have res: "SwitchBlock_resolved s2 as N = inst" using inst by simp
  have mono: "\<forall>x k j. SwitchBlock_join_of s x k = Some j \<longrightarrow> SwitchBlock_join_of s2 x k = Some j"
    using mono2 eff(4) by blast
  from d run shape mono js nn res inst show ?case by simp
qed

lemma SwitchBlock_HadJumper_join_of:
  "SwitchBlock_at s a = Some blk
   \<Longrightarrow> SwitchBlock_HadJumper blk k = (SwitchBlock_join_of s a k \<noteq> None)"
  by (simp add: SwitchBlock_HadJumper_def SwitchBlock_join_of_def)

lemma SwitchBlock_Destination_again:
  assumes chain: "SwitchBlock_chain (SwitchBlock_at s) (Some this) as"
    and found: "find (SwitchBlock_at_or_below (SwitchBlock_at s) N) as = Some a"
    and blk: "SwitchBlock_at s a = Some block"
    and e: "SwitchBlock_EnsureDestination a (N - sw_depth block) s = Inr (inst, s1)"
    and outs: "outer_finally \<longrightarrow> context_depth_out"
  shows "\<exists>jump2. SwitchBlock_Destination this N outer_finally context_depth_out s1
                   = Some (Inr (jump2, s1))
                 \<and> jump_destination jump2 = inst"
proof -
  note eff = SwitchBlock_EnsureDestination_effect [OF blk e]
  from eff(1) obtain j where inst: "inst = Some j" by auto
  have chain1: "SwitchBlock_chain (SwitchBlock_at s1) (Some this) as"
    using chain shape_chain [OF eff(3)] by simp
  have found1: "find (SwitchBlock_at_or_below (SwitchBlock_at s1) N) as = Some a"
    using found shape_find [OF eff(3)] by simp
  from shape_depth [OF eff(3), of a] blk obtain block1 where
    blk1: "SwitchBlock_at s1 a = Some block1" and dep: "sw_depth block1 = sw_depth block"
    by auto
  from eff(2) blk1 inst dep
  have "IntMap_Lookup (sw_destinations block1) (N - sw_depth block1) = Some j"
    by (simp add: SwitchBlock_join_of_def)
  from SwitchBlock_EnsureDestination_cached [OF blk1 this]
  have e1: "SwitchBlock_EnsureDestination a (N - sw_depth block1) s1 = Inr (inst, s1)"
    using inst by simp
  from SwitchBlock_Destination_step [OF chain1 found1 blk1 outs] e1
  show ?thesis by auto
qed

lemma SwitchBlock_ctor_no_jumper:
  assumes "SwitchBlock_ctor cti new n s = Inr s1"
  shows "\<exists>blk. SwitchBlock_at s1 new = Some blk \<and> (\<forall>k. \<not> SwitchBlock_HadJumper blk k)"
  using assms
  by (auto simp: SwitchBlock_ctor_def SwitchBlock_HadJumper_def IntMap_Lookup_def
      DirectChainedHashMap_Lookup_def DirectChainedHashMap_new_def default_option_def Let_def
      split: option.splits sum.splits)

lemma SwitchBlock_ctor_depth:
  "(switch_block s = None
      \<longrightarrow> map_sum id (\<lambda>s1. map_option sw_depth (SwitchBlock_at s1 new))
            (SwitchBlock_ctor cti new n s) = Inr (Some 0))
   \<and> (switch_block s = Some oa \<and> SwitchBlock_at s oa = Some outer_blk
      \<longrightarrow> map_sum id (\<lambda>s1. map_option sw_depth (SwitchBlock_at s1 new))
            (SwitchBlock_ctor cti new n s)
          = Inr (Some (sw_depth outer_blk + sw_case_count outer_blk)))"
  by (simp add: SwitchBlock_ctor_def)

lemma SwitchBlock_Destination_lazy:
  assumes chain: "SwitchBlock_chain (SwitchBlock_at s) (Some this) as"
    and found: "find (SwitchBlock_at_or_below (SwitchBlock_at s) N) as = Some a"
    and blk: "SwitchBlock_at s a = Some block"
    and outs: "outer_finally \<longrightarrow> context_depth_out"
  shows "\<exists>jump s1.
           SwitchBlock_Destination this N outer_finally context_depth_out s
             = Some (Inr (jump, s1))
         \<and> (\<not> SwitchBlock_HadJumper block (N - sw_depth block)
              \<longrightarrow> jump_destination jump = Some (length (zone s))
                  \<and> zone s1 = zone s @ [\<lparr>join_block_id = last_used_block_id s + 1,
                                          join_try_index = sw_try_index block\<rparr>]
                  \<and> SwitchBlock_at s1 = (SwitchBlock_at s)
                       (a \<mapsto> block\<lparr>sw_destinations :=
                                    IntMap_Insert (sw_destinations block) (N - sw_depth block)
                                      (jump_destination jump)\<rparr>))
         \<and> (SwitchBlock_HadJumper block (N - sw_depth block)
              \<longrightarrow> s1 = s
                  \<and> jump_destination jump
                      = IntMap_Lookup (sw_destinations block) (N - sw_depth block))
         \<and> (\<exists>block1. SwitchBlock_at s1 a = Some block1
                \<and> SwitchBlock_HadJumper block1 (N - sw_depth block)
                \<and> IntMap_Lookup (sw_destinations block1) (N - sw_depth block)
                    = jump_destination jump
                \<and> (\<forall>k. k \<noteq> N - sw_depth block
                      \<longrightarrow> SwitchBlock_HadJumper block1 k = SwitchBlock_HadJumper block k))
         \<and> (\<forall>x k. (x, k) \<noteq> (a, N - sw_depth block)
              \<longrightarrow> SwitchBlock_join_of s1 x k = SwitchBlock_join_of s x k)
         \<and> (\<forall>of2 cd2. (of2 \<longrightarrow> cd2)
              \<longrightarrow> (\<exists>jump2. SwitchBlock_Destination this N of2 cd2 s1 = Some (Inr (jump2, s1))
                     \<and> jump_destination jump2 = jump_destination jump))"
proof -
  let ?k = "N - sw_depth block"
  from SwitchBlock_Destination_step [OF chain found blk outs]
  obtain inst s1 where
    d: "SwitchBlock_Destination this N outer_finally context_depth_out s
          = Some (Inr (\<lparr>jump_destination = inst,
                        written_outer_finally =
                          (if outer_finally then Some (sw_outer_finally block) else None),
                        written_context_depth =
                          (if outer_finally then Some (sw_context_depth block) else None)\<rparr>,
                       s1))"
    and e: "SwitchBlock_EnsureDestination a ?k s = Inr (inst, s1)"
    by auto
  note eff = SwitchBlock_EnsureDestination_effect [OF blk e]
  from shape_depth [OF eff(3), of a] blk obtain block1 where
    blk1: "SwitchBlock_at s1 a = Some block1"
    by auto
  have fresh: "inst = Some (length (zone s))
      \<and> zone s1 = zone s @ [\<lparr>join_block_id = last_used_block_id s + 1,
                              join_try_index = sw_try_index block\<rparr>]
      \<and> SwitchBlock_at s1 = (SwitchBlock_at s)
           (a \<mapsto> block\<lparr>sw_destinations := IntMap_Insert (sw_destinations block) ?k inst\<rparr>)"
    if "\<not> SwitchBlock_HadJumper block ?k"
    using blk e
    by (rule SwitchBlock_EnsureDestination_cases)
      (use that in \<open>simp_all add: SwitchBlock_HadJumper_def\<close>)
  have cached: "s1 = s \<and> inst = IntMap_Lookup (sw_destinations block) ?k"
    if "SwitchBlock_HadJumper block ?k"
    using blk e
    by (rule SwitchBlock_EnsureDestination_cases)
      (use that in \<open>simp_all add: SwitchBlock_HadJumper_def\<close>)
  have after: "SwitchBlock_HadJumper block1 ?k
      \<and> IntMap_Lookup (sw_destinations block1) ?k = inst
      \<and> (\<forall>k. k \<noteq> ?k \<longrightarrow> SwitchBlock_HadJumper block1 k = SwitchBlock_HadJumper block k)"
    using eff(1) eff(2) eff(5) [of a] blk blk1
    by (simp add: SwitchBlock_HadJumper_join_of [OF blk] SwitchBlock_HadJumper_join_of [OF blk1])
      (simp add: SwitchBlock_join_of_def)
  have again: "\<exists>jump2. SwitchBlock_Destination this N of2 cd2 s1 = Some (Inr (jump2, s1))
                     \<and> jump_destination jump2 = inst"
    if "of2 \<longrightarrow> cd2" for of2 cd2
    using SwitchBlock_Destination_again [OF chain found blk e that] .
  have others: "\<forall>x k. (x, k) \<noteq> (a, ?k)
              \<longrightarrow> SwitchBlock_join_of s1 x k = SwitchBlock_join_of s x k"
    using eff(5) by blast
  from d fresh cached after again blk1 others show ?thesis by simp
qed

lemma SwitchBlock_contiguous_tail:
  "SwitchBlock_contiguous h (x # xs) \<Longrightarrow> SwitchBlock_contiguous h xs"
  by (cases xs) (auto split: option.splits)

lemma SwitchBlock_contiguous_above:
  assumes "SwitchBlock_contiguous h (x # xs)" and "a \<in> set xs"
    and "h x = Some xblk" and "h a = Some ablk"
  shows "sint (sw_depth ablk) + sint (sw_case_count ablk) \<le> sint (sw_depth xblk)"
  using assms
proof (induction xs arbitrary: x xblk)
  case Nil
  then show ?case by simp
next
  case (Cons y ys)
  from Cons.prems(1,3) obtain yblk where y: "h y = Some yblk"
    and step: "sint (sw_depth xblk) = sint (sw_depth yblk) + sint (sw_case_count yblk)"
    and rest: "SwitchBlock_contiguous h (y # ys)"
    by (auto split: option.splits)
  have nonneg: "0 \<le> sint (sw_case_count yblk)"
    using rest y by (cases ys) (auto split: option.splits)
  show ?case
  proof (cases "a = y")
    case True
    with y Cons.prems(4) step show ?thesis by simp
  next
    case False
    with Cons.prems(2) have "a \<in> set ys" by simp
    from Cons.IH [OF rest this y Cons.prems(4)] step nonneg show ?thesis by simp
  qed
qed

lemma SwitchBlock_find_owner:
  assumes "SwitchBlock_contiguous h as" and "a \<in> set as" and "SwitchBlock_in_range h N a"
  shows "find (SwitchBlock_at_or_below h N) as = Some a"
  using assms(1,2)
proof (induction as)
  case Nil
  then show ?case by simp
next
  case (Cons x xs)
  from assms(3) obtain ablk where a: "h a = Some ablk"
    and lo: "sint (sw_depth ablk) \<le> sint N"
    and hi: "sint N < sint (sw_depth ablk) + sint (sw_case_count ablk)"
    by (auto simp: SwitchBlock_in_range_def split: option.splits)
  show ?case
  proof (cases "x = a")
    case True
    with a lo show ?thesis by (simp add: SwitchBlock_at_or_below_Some)
  next
    case False
    with Cons.prems(2) have in_rest: "a \<in> set xs" by simp
    from Cons.prems(1) obtain xblk where x: "h x = Some xblk"
      by (cases xs) (auto split: option.splits)
    from SwitchBlock_contiguous_above [OF Cons.prems(1) in_rest x a] hi
    have "\<not> sint (sw_depth xblk) \<le> sint N" by simp
    with x have "\<not> SwitchBlock_at_or_below h N x" by (simp add: SwitchBlock_at_or_below_Some)
    with Cons.IH [OF SwitchBlock_contiguous_tail [OF Cons.prems(1)] in_rest]
    show ?thesis by simp
  qed
qed

lemma SwitchBlock_contiguous_cong:
  assumes "\<forall>x \<in> set as. h' x = h x"
  shows "SwitchBlock_contiguous h' as = SwitchBlock_contiguous h as"
  using assms
  by (induction h as rule: SwitchBlock_contiguous.induct) (auto split: option.splits)

lemma SwitchBlock_chain_cong:
  assumes "\<forall>x \<in> set as. h' x = h x"
  shows "SwitchBlock_chain h' p as = SwitchBlock_chain h p as"
  using assms by (induction as arbitrary: p) (auto split: option.splits)

lemma sint_add_no_overflow:
  fixes d c :: intptr
  assumes "0 \<le> sint d" and "0 \<le> sint c" and "sint d + sint c < 2 ^ 63"
  shows "sint (d + c) = sint d + sint c"
proof -
  have "sint (d + c) = signed_take_bit 63 (sint d + sint c)"
    by (simp add: sint_word_ariths)
  also have "\<dots> = sint d + sint c"
    using assms by (simp add: signed_take_bit_int_eq_self)
  finally show ?thesis .
qed

lemma SwitchBlock_contiguous_depth_nonneg:
  assumes "SwitchBlock_contiguous h (x # xs)" and "h x = Some xblk"
  shows "0 \<le> sint (sw_depth xblk)"
  using assms
proof (induction xs arbitrary: x xblk)
  case Nil
  then show ?case by simp
next
  case (Cons y ys)
  from Cons.prems obtain yblk where y: "h y = Some yblk"
    and step: "sint (sw_depth xblk) = sint (sw_depth yblk) + sint (sw_case_count yblk)"
    and rest: "SwitchBlock_contiguous h (y # ys)"
    by (auto split: option.splits)
  have "0 \<le> sint (sw_case_count yblk)"
    using rest y by (cases ys) (auto split: option.splits)
  with Cons.IH [OF rest y] step show ?case by simp
qed

lemma SwitchBlock_ctor_contiguous:
  assumes ctor: "SwitchBlock_ctor cti new n s = Inr s1"
    and chain: "SwitchBlock_chain (SwitchBlock_at s) (switch_block s) as"
    and cont: "SwitchBlock_contiguous (SwitchBlock_at s) as"
    and fresh: "new \<notin> set as"
    and n: "0 \<le> sint n"
    and room: "\<forall>x \<in> set as. \<forall>blk. SwitchBlock_at s x = Some blk
                 \<longrightarrow> sint (sw_depth blk) + sint (sw_case_count blk) < 2 ^ 63"
  shows "SwitchBlock_chain (SwitchBlock_at s1) (Some new) (new # as)
       \<and> SwitchBlock_contiguous (SwitchBlock_at s1) (new # as)"
proof (cases as)
  case Nil
  with chain have "switch_block s = None" by simp
  with ctor n Nil show ?thesis
    by (auto simp: SwitchBlock_ctor_def)
next
  case (Cons top rest)
  from chain Cons obtain tblk where top: "switch_block s = Some top"
    and t: "SwitchBlock_at s top = Some tblk"
    by (auto split: option.splits)
  from ctor top t have s1: "SwitchBlock_at s1 = (SwitchBlock_at s)
      (new \<mapsto> \<lparr>sw_outer = Some top, sw_destinations = DirectChainedHashMap_new,
                sw_outer_finally = try_finally_block s, sw_case_count = n,
                sw_depth = sw_depth tblk + sw_case_count tblk,
                sw_context_depth = context_depth s, sw_try_index = cti s\<rparr>)"
    by (auto simp: SwitchBlock_ctor_def)
  have same: "\<forall>x \<in> set as. SwitchBlock_at s1 x = SwitchBlock_at s x"
    using fresh s1 by auto
  have c1: "SwitchBlock_chain (SwitchBlock_at s1) (Some top) as"
    using chain top SwitchBlock_chain_cong [OF same] by simp
  have k1: "SwitchBlock_contiguous (SwitchBlock_at s1) as"
    using cont SwitchBlock_contiguous_cong [OF same] by simp
  have t1: "SwitchBlock_at s1 top = Some tblk"
    using same t Cons by simp
  have d0: "0 \<le> sint (sw_depth tblk)"
    using SwitchBlock_contiguous_depth_nonneg [of "SwitchBlock_at s" top rest tblk] cont t Cons
    by simp
  have c0: "0 \<le> sint (sw_case_count tblk)"
    using cont t Cons by (cases rest) (auto split: option.splits)
  have "sint (sw_depth tblk) + sint (sw_case_count tblk) < 2 ^ 63"
    using room t Cons by simp
  from sint_add_no_overflow [OF d0 c0 this]
  have d: "sint (sw_depth tblk + sw_case_count tblk)
           = sint (sw_depth tblk) + sint (sw_case_count tblk)" .
  from c1 k1 t1 d n s1 Cons show ?thesis by simp
qed

lemma SwitchBlock_ctor_records:
  assumes "SwitchBlock_ctor cti new n s = Inr s_new"
  shows "\<exists>blk. SwitchBlock_at s_new new = Some blk
           \<and> sw_case_count blk = n
           \<and> sw_outer blk = switch_block s
           \<and> sw_outer_finally blk = try_finally_block s
           \<and> sw_context_depth blk = context_depth s
           \<and> sw_try_index blk = cti s"
    and "switch_block s_new = Some new"
    and "\<forall>x. x \<noteq> new \<longrightarrow> SwitchBlock_at s_new x = SwitchBlock_at s x"
  using assms
  by (auto simp: SwitchBlock_ctor_def Let_def split: option.splits sum.splits)

lemma SwitchBlock_ctor_then_Destination:
  assumes ctor: "SwitchBlock_ctor cti new n s = Inr s_new"
    and chain: "SwitchBlock_chain (SwitchBlock_at s) (switch_block s) as"
    and fresh: "new \<notin> set as"
    and below: "SwitchBlock_at_or_below (SwitchBlock_at s_new) N new"
    and outs: "outer_finally \<longrightarrow> context_depth_out"
  shows "\<exists>inst s1.
           SwitchBlock_Destination new N outer_finally context_depth_out s_new
             = Some (Inr (\<lparr>jump_destination = inst,
                           written_outer_finally =
                             (if outer_finally then Some (try_finally_block s) else None),
                           written_context_depth =
                             (if outer_finally then Some (context_depth s) else None)\<rparr>,
                          s1))
         \<and> inst \<noteq> None"
proof -
  from SwitchBlock_ctor_records(1) [OF ctor] obtain blk where
    blk: "SwitchBlock_at s_new new = Some blk"
    and outer: "sw_outer blk = switch_block s"
    and fin: "sw_outer_finally blk = try_finally_block s"
    and ctx: "sw_context_depth blk = context_depth s"
    by blast
  have same: "\<forall>x \<in> set as. SwitchBlock_at s_new x = SwitchBlock_at s x"
    using SwitchBlock_ctor_records(3) [OF ctor] fresh by auto
  have chain1: "SwitchBlock_chain (SwitchBlock_at s_new) (Some new) (new # as)"
    using chain blk outer SwitchBlock_chain_cong [OF same] by simp
  have found: "find (SwitchBlock_at_or_below (SwitchBlock_at s_new) N) (new # as) = Some new"
    using below by simp
  from SwitchBlock_Destination_step [OF chain1 found blk outs] obtain inst s1 where
    d: "SwitchBlock_Destination new N outer_finally context_depth_out s_new
               = Some (Inr (\<lparr>jump_destination = inst,
                             written_outer_finally =
                               (if outer_finally then Some (sw_outer_finally blk) else None),
                             written_context_depth =
                               (if outer_finally then Some (sw_context_depth blk) else None)\<rparr>,
                            s1))"
    and e: "SwitchBlock_EnsureDestination new (N - sw_depth blk) s_new = Inr (inst, s1)"
    by blast
  from SwitchBlock_EnsureDestination_effect(1) [OF blk e] d fin ctx
  show ?thesis by auto
qed

lemma SwitchBlock_ctor_nested:
  assumes "SwitchBlock_ctor cti outer_this n_outer s = Inr s_outer"
    and "SwitchBlock_ctor cti2 inner_this n_inner s_outer = Inr s_inner"
    and "inner_this \<noteq> outer_this"
  shows "\<exists>outer_blk inner_blk.
           SwitchBlock_at s_inner outer_this = Some outer_blk
         \<and> SwitchBlock_at s_inner inner_this = Some inner_blk
         \<and> sw_case_count outer_blk = n_outer
         \<and> sw_case_count inner_blk = n_inner
         \<and> sw_outer inner_blk = Some outer_this
         \<and> sw_depth inner_blk = sw_depth outer_blk + n_outer"
proof -
  from SwitchBlock_ctor_records [OF assms(1)] obtain ob where
    ob: "SwitchBlock_at s_outer outer_this = Some ob" and cc: "sw_case_count ob = n_outer"
    and top: "switch_block s_outer = Some outer_this"
    by blast
  from SwitchBlock_ctor_records [OF assms(2)] top obtain ib where
    ib: "SwitchBlock_at s_inner inner_this = Some ib" and ci: "sw_case_count ib = n_inner"
    and oi: "sw_outer ib = Some outer_this"
    and keep: "\<forall>x. x \<noteq> inner_this \<longrightarrow> SwitchBlock_at s_inner x = SwitchBlock_at s_outer x"
    by auto
  from keep assms(3) ob have ob2: "SwitchBlock_at s_inner outer_this = Some ob" by simp
  from SwitchBlock_ctor_depth [of s_outer inner_this cti2 n_inner outer_this ob] top ob
    assms(2) ib
  have "sw_depth ib = sw_depth ob + sw_case_count ob" by simp
  with ob2 ib cc ci oi show ?thesis by simp
qed

lemma example_switches_built:
  "and_then (SwitchBlock_ctor (\<lambda>s. - 1) 10 3 example_translation)
     (\<lambda>s1. SwitchBlock_ctor (\<lambda>s. - 1) 11 2
        ((TryFinallyBlock_ctor (\<lambda>s. - 1) 20 100 s1)\<lparr>context_depth := 3\<rparr>))
   = Inr example_switches"
  by (simp add: and_then_def SwitchBlock_ctor_def TryFinallyBlock_ctor_def
      example_translation_def example_switches_def fun_upd_twist)

text \<open>
  C3: a switch block constructed while no switch block is live records depth 0, and one
  constructed inside another records the outer block's depth plus the outer block's case
  count. For a target case number in the range of some block of the chain that starts at
  the receiver, \<^verbatim>\<open>Destination\<close> ends at the first block of the chain whose depth
  does not exceed the target, returns the join entry of that block for the target minus
  that block's depth, which is not null, and, when the caller passes the out-pointers,
  writes that block's recorded finally block and context depth through them. The
  constructor keeps a chain contiguous as long as the numbering does not overflow, and on
  a contiguous chain the first block at or below a target is the block whose range holds
  the target.
\<close>

theorem C3_switch_case_numbering:
  "(switch_block s = None
      \<longrightarrow> map_sum id (\<lambda>s1. map_option sw_depth (SwitchBlock_at s1 new))
            (SwitchBlock_ctor cti new n s) = Inr (Some 0))
   \<and> (switch_block s = Some oa \<and> SwitchBlock_at s oa = Some outer_blk
      \<longrightarrow> map_sum id (\<lambda>s1. map_option sw_depth (SwitchBlock_at s1 new))
            (SwitchBlock_ctor cti new n s)
          = Inr (Some (sw_depth outer_blk + sw_case_count outer_blk)))
   \<and> (SwitchBlock_chain (SwitchBlock_at s) (Some this) as
       \<and> (\<exists>a \<in> set as. SwitchBlock_in_range (SwitchBlock_at s) N a)
       \<and> (outer_finally \<longrightarrow> context_depth_out)
      \<longrightarrow> (\<exists>a block inst s1.
             find (SwitchBlock_at_or_below (SwitchBlock_at s) N) as = Some a
           \<and> SwitchBlock_at s a = Some block
           \<and> SwitchBlock_Destination this N outer_finally context_depth_out s
               = Some (Inr (\<lparr>jump_destination = inst,
                             written_outer_finally =
                               (if outer_finally then Some (sw_outer_finally block) else None),
                             written_context_depth =
                               (if outer_finally then Some (sw_context_depth block) else None)\<rparr>,
                            s1))
           \<and> SwitchBlock_EnsureDestination a (N - sw_depth block) s = Inr (inst, s1)
           \<and> inst \<noteq> None
           \<and> SwitchBlock_join_of s1 a (N - sw_depth block) = inst))
   \<and> (SwitchBlock_contiguous (SwitchBlock_at s) as \<and> owner \<in> set as
       \<and> SwitchBlock_in_range (SwitchBlock_at s) N owner
      \<longrightarrow> find (SwitchBlock_at_or_below (SwitchBlock_at s) N) as = Some owner)
   \<and> (SwitchBlock_ctor cti new n s = Inr s_new
       \<and> SwitchBlock_chain (SwitchBlock_at s) (switch_block s) as
       \<and> SwitchBlock_contiguous (SwitchBlock_at s) as
       \<and> new \<notin> set as \<and> 0 \<le> sint n
       \<and> (\<forall>x \<in> set as. \<forall>blk. SwitchBlock_at s x = Some blk
              \<longrightarrow> sint (sw_depth blk) + sint (sw_case_count blk) < 2 ^ 63)
      \<longrightarrow> SwitchBlock_chain (SwitchBlock_at s_new) (Some new) (new # as)
          \<and> SwitchBlock_contiguous (SwitchBlock_at s_new) (new # as))
   \<and> (SwitchBlock_ctor cti new n s = Inr s_new
      \<longrightarrow> switch_block s_new = Some new
          \<and> (\<exists>blk. SwitchBlock_at s_new new = Some blk
                \<and> sw_case_count blk = n
                \<and> sw_outer blk = switch_block s
                \<and> sw_outer_finally blk = try_finally_block s
                \<and> sw_context_depth blk = context_depth s
                \<and> sw_try_index blk = cti s)
          \<and> (\<forall>x. x \<noteq> new \<longrightarrow> SwitchBlock_at s_new x = SwitchBlock_at s x))
   \<and> (SwitchBlock_ctor cti new n s = Inr s_new
       \<and> SwitchBlock_chain (SwitchBlock_at s) (switch_block s) as
       \<and> new \<notin> set as
       \<and> SwitchBlock_at_or_below (SwitchBlock_at s_new) N new
       \<and> (outer_finally \<longrightarrow> context_depth_out)
      \<longrightarrow> (\<exists>inst s1.
             SwitchBlock_Destination new N outer_finally context_depth_out s_new
               = Some (Inr (\<lparr>jump_destination = inst,
                             written_outer_finally =
                               (if outer_finally then Some (try_finally_block s) else None),
                             written_context_depth =
                               (if outer_finally then Some (context_depth s) else None)\<rparr>,
                            s1))
           \<and> inst \<noteq> None))
   \<and> (SwitchBlock_ctor cti new n s = Inr s_new
       \<and> SwitchBlock_ctor cti2 inner_this n_inner s_new = Inr s_inner
       \<and> inner_this \<noteq> new
      \<longrightarrow> (\<exists>outer_blk inner_blk.
             SwitchBlock_at s_inner new = Some outer_blk
           \<and> SwitchBlock_at s_inner inner_this = Some inner_blk
           \<and> sw_case_count outer_blk = n
           \<and> sw_case_count inner_blk = n_inner
           \<and> sw_outer inner_blk = Some new
           \<and> sw_depth inner_blk = sw_depth outer_blk + n))"
proof -
  have main: "\<exists>a block inst s1.
             find (SwitchBlock_at_or_below (SwitchBlock_at s) N) as = Some a
           \<and> SwitchBlock_at s a = Some block
           \<and> SwitchBlock_Destination this N outer_finally context_depth_out s
               = Some (Inr (\<lparr>jump_destination = inst,
                             written_outer_finally =
                               (if outer_finally then Some (sw_outer_finally block) else None),
                             written_context_depth =
                               (if outer_finally then Some (sw_context_depth block) else None)\<rparr>,
                            s1))
           \<and> SwitchBlock_EnsureDestination a (N - sw_depth block) s = Inr (inst, s1)
           \<and> inst \<noteq> None
           \<and> SwitchBlock_join_of s1 a (N - sw_depth block) = inst"
    if chain: "SwitchBlock_chain (SwitchBlock_at s) (Some this) as"
      and range: "\<exists>a \<in> set as. SwitchBlock_in_range (SwitchBlock_at s) N a"
      and outs: "outer_finally \<longrightarrow> context_depth_out"
  proof -
    from find_at_or_below_exists [OF range] obtain a block where
      found: "find (SwitchBlock_at_or_below (SwitchBlock_at s) N) as = Some a"
      and blk: "SwitchBlock_at s a = Some block"
      by blast
    from SwitchBlock_Destination_step [OF chain found blk outs] obtain inst s1 where
      d: "SwitchBlock_Destination this N outer_finally context_depth_out s
               = Some (Inr (\<lparr>jump_destination = inst,
                             written_outer_finally =
                               (if outer_finally then Some (sw_outer_finally block) else None),
                             written_context_depth =
                               (if outer_finally then Some (sw_context_depth block) else None)\<rparr>,
                            s1))"
      and e: "SwitchBlock_EnsureDestination a (N - sw_depth block) s = Inr (inst, s1)"
      by blast
    note eff = SwitchBlock_EnsureDestination_effect [OF blk e]
    from found blk d e eff(1) eff(2) show ?thesis by blast
  qed
  have owner: "find (SwitchBlock_at_or_below (SwitchBlock_at s) N) as = Some owner"
    if "SwitchBlock_contiguous (SwitchBlock_at s) as" and "owner \<in> set as"
      and "SwitchBlock_in_range (SwitchBlock_at s) N owner"
    using that by (rule SwitchBlock_find_owner)
  have grow: "SwitchBlock_chain (SwitchBlock_at s_new) (Some new) (new # as)
          \<and> SwitchBlock_contiguous (SwitchBlock_at s_new) (new # as)"
    if "SwitchBlock_ctor cti new n s = Inr s_new"
      and "SwitchBlock_chain (SwitchBlock_at s) (switch_block s) as"
      and "SwitchBlock_contiguous (SwitchBlock_at s) as"
      and "new \<notin> set as" and "0 \<le> sint n"
      and "\<forall>x \<in> set as. \<forall>blk. SwitchBlock_at s x = Some blk
              \<longrightarrow> sint (sw_depth blk) + sint (sw_case_count blk) < 2 ^ 63"
    using that by (rule SwitchBlock_ctor_contiguous)
  have records: "switch_block s_new = Some new
          \<and> (\<exists>blk. SwitchBlock_at s_new new = Some blk
                \<and> sw_case_count blk = n
                \<and> sw_outer blk = switch_block s
                \<and> sw_outer_finally blk = try_finally_block s
                \<and> sw_context_depth blk = context_depth s
                \<and> sw_try_index blk = cti s)
          \<and> (\<forall>x. x \<noteq> new \<longrightarrow> SwitchBlock_at s_new x = SwitchBlock_at s x)"
    if "SwitchBlock_ctor cti new n s = Inr s_new"
    using SwitchBlock_ctor_records [OF that] by simp
  have fresh_jump: "\<exists>inst s1.
             SwitchBlock_Destination new N outer_finally context_depth_out s_new
               = Some (Inr (\<lparr>jump_destination = inst,
                             written_outer_finally =
                               (if outer_finally then Some (try_finally_block s) else None),
                             written_context_depth =
                               (if outer_finally then Some (context_depth s) else None)\<rparr>,
                            s1))
           \<and> inst \<noteq> None"
    if "SwitchBlock_ctor cti new n s = Inr s_new"
      and "SwitchBlock_chain (SwitchBlock_at s) (switch_block s) as"
      and "new \<notin> set as"
      and "SwitchBlock_at_or_below (SwitchBlock_at s_new) N new"
      and "outer_finally \<longrightarrow> context_depth_out"
    using that by (rule SwitchBlock_ctor_then_Destination)
  have nested: "\<exists>outer_blk inner_blk.
             SwitchBlock_at s_inner new = Some outer_blk
           \<and> SwitchBlock_at s_inner inner_this = Some inner_blk
           \<and> sw_case_count outer_blk = n
           \<and> sw_case_count inner_blk = n_inner
           \<and> sw_outer inner_blk = Some new
           \<and> sw_depth inner_blk = sw_depth outer_blk + n"
    if "SwitchBlock_ctor cti new n s = Inr s_new"
      and "SwitchBlock_ctor cti2 inner_this n_inner s_new = Inr s_inner"
      and "inner_this \<noteq> new"
    using that by (rule SwitchBlock_ctor_nested)
  note depth = SwitchBlock_ctor_depth [of s new cti n oa outer_blk]
  show ?thesis
    apply (intro conjI)
           apply (rule depth [THEN conjunct1])
          apply (rule depth [THEN conjunct2])
         apply (intro impI, elim conjE, erule (2) main)
        apply (intro impI, elim conjE, erule (2) owner)
       apply (intro impI, elim conjE, erule (5) grow)
      apply (intro impI, erule records)
     apply (intro impI, elim conjE, erule (4) fresh_jump)
    apply (intro impI, elim conjE, erule (2) nested)
    done
qed

theorem C3_switch_case_numbering_witness:
  "SwitchBlock_chain (SwitchBlock_at example_switches) (Some 11) [11, 10]
   \<and> SwitchBlock_contiguous (SwitchBlock_at example_switches) [11, 10]
   \<and> SwitchBlock_in_range (SwitchBlock_at example_switches) 1 10
   \<and> find (SwitchBlock_at_or_below (SwitchBlock_at example_switches) 1) [11, 10] = Some 10
   \<and> (\<exists>inst s1. SwitchBlock_Destination 11 1 True True example_switches
         = Some (Inr (\<lparr>jump_destination = inst, written_outer_finally = Some None,
                       written_context_depth = Some 2\<rparr>, s1))
        \<and> inst \<noteq> None \<and> SwitchBlock_join_of s1 10 1 = inst)
   \<and> map_option (map_sum id fst) (SwitchBlock_Destination 11 1 True True example_switches)
       = Some (Inr \<lparr>jump_destination = Some 0, written_outer_finally = Some None,
                    written_context_depth = Some 2\<rparr>)
   \<and> map_option (map_sum id fst) (SwitchBlock_Destination 11 4 True True example_switches)
       = Some (Inr \<lparr>jump_destination = Some 0, written_outer_finally = Some (Some 20),
                    written_context_depth = Some 3\<rparr>)
   \<and> map_sum id (\<lambda>s1. map_option sw_depth (SwitchBlock_at s1 12))
        (SwitchBlock_ctor (\<lambda>s. - 1) 12 4 example_switches) = Inr (Some 5)
   \<and> (\<exists>s_new blk. SwitchBlock_ctor (\<lambda>s. - 1) 12 4 example_switches = Inr s_new
         \<and> SwitchBlock_chain (SwitchBlock_at s_new) (Some 12) [12, 11, 10]
         \<and> SwitchBlock_contiguous (SwitchBlock_at s_new) [12, 11, 10]
         \<and> switch_block s_new = Some 12
         \<and> SwitchBlock_at s_new 12 = Some blk
         \<and> sw_case_count blk = 4 \<and> sw_depth blk = 5 \<and> sw_outer blk = Some 11
         \<and> sw_outer_finally blk = Some 20 \<and> sw_context_depth blk = 3
         \<and> (\<exists>inst s1. SwitchBlock_Destination 12 6 True True s_new
               = Some (Inr (\<lparr>jump_destination = inst,
                             written_outer_finally = Some (Some 20),
                             written_context_depth = Some 3\<rparr>, s1))
              \<and> inst \<noteq> None))
   \<and> (\<exists>s_outer s_inner outer_blk inner_blk.
         SwitchBlock_ctor (\<lambda>s. - 1) 10 3 example_translation = Inr s_outer
       \<and> SwitchBlock_ctor (\<lambda>s. - 1) 11 2 s_outer = Inr s_inner
       \<and> SwitchBlock_at s_inner 10 = Some outer_blk
       \<and> SwitchBlock_at s_inner 11 = Some inner_blk
       \<and> sw_depth outer_blk = 0 \<and> sw_case_count outer_blk = 3
       \<and> sw_depth inner_blk = 3 \<and> sw_case_count inner_blk = 2)"
proof -
  have chain: "SwitchBlock_chain (SwitchBlock_at example_switches) (Some 11) [11, 10]"
    by (simp add: example_switches_def)
  have cont: "SwitchBlock_contiguous (SwitchBlock_at example_switches) [11, 10]"
    by (simp add: example_switches_def)
  have range: "SwitchBlock_in_range (SwitchBlock_at example_switches) 1 10"
    by (simp add: example_switches_def SwitchBlock_in_range_def)
  then have range': "\<exists>a \<in> set [11, 10]. SwitchBlock_in_range (SwitchBlock_at example_switches) 1 a"
    by simp
  have blk10: "SwitchBlock_at example_switches 10
      = Some \<lparr>sw_outer = None, sw_destinations = DirectChainedHashMap_new,
              sw_outer_finally = None, sw_case_count = 3, sw_depth = 0,
              sw_context_depth = 2, sw_try_index = - 1\<rparr>"
    by (simp add: example_switches_def)
  have top: "switch_block example_switches = Some 11"
    "try_finally_block example_switches = Some 20" "context_depth example_switches = 3"
    by (simp_all add: example_switches_def example_translation_def)
  have blk11: "SwitchBlock_at example_switches 11
      = Some \<lparr>sw_outer = Some 10, sw_destinations = DirectChainedHashMap_new,
              sw_outer_finally = Some 20, sw_case_count = 2, sw_depth = 3,
              sw_context_depth = 3, sw_try_index = - 1\<rparr>"
    by (simp add: example_switches_def)
  have room: "\<forall>x \<in> set [11, 10]. \<forall>blk. SwitchBlock_at example_switches x = Some blk
                \<longrightarrow> sint (sw_depth blk) + sint (sw_case_count blk) < 2 ^ 63"
    using blk10 blk11 by auto
  obtain s_new where ctor: "SwitchBlock_ctor (\<lambda>s. - 1) 12 4 example_switches = Inr s_new"
    by (simp add: SwitchBlock_ctor_def top blk11)
  have ev: "map_option (map_sum id fst) (SwitchBlock_Destination 11 1 True True example_switches)
       = Some (Inr \<lparr>jump_destination = Some 0, written_outer_finally = Some None,
                    written_context_depth = Some 2\<rparr>)"
    "map_option (map_sum id fst) (SwitchBlock_Destination 11 4 True True example_switches)
       = Some (Inr \<lparr>jump_destination = Some 0, written_outer_finally = Some (Some 20),
                    written_context_depth = Some 3\<rparr>)"
    by (simp_all add: SwitchBlock_Destination_def SwitchBlock_find.simps
        SwitchBlock_EnsureDestination_def BuildJoinEntry_def AllocateBlockId_def
        IntMap_Lookup_def DirectChainedHashMap_Lookup_def DirectChainedHashMap_new_def
        default_option_def example_switches_def example_translation_def)
  note at_example = C3_switch_case_numbering [where s = example_switches and new = 12
      and cti = "\<lambda>s. - 1" and n = 4 and oa = 11
      and outer_blk = "\<lparr>sw_outer = Some 10, sw_destinations = DirectChainedHashMap_new,
              sw_outer_finally = Some 20, sw_case_count = 2, sw_depth = 3,
              sw_context_depth = 3, sw_try_index = - 1\<rparr>"
      and this = 11 and as = "[11, 10]" and N = 1 and outer_finally = True
      and context_depth_out = True and owner = 10 and s_new = s_new]
  note c2 = at_example [THEN conjunct2]
  note c3 = c2 [THEN conjunct2]
  note c4 = c3 [THEN conjunct2]
  note c5 = c4 [THEN conjunct2]
  note c6 = c5 [THEN conjunct2]
  note at_six = C3_switch_case_numbering [where s = example_switches and new = 12
      and cti = "\<lambda>s. - 1" and n = 4 and as = "[11, 10]" and N = 6
      and outer_finally = True and context_depth_out = True and s_new = s_new]
  note c7 = at_six [THEN conjunct2, THEN conjunct2, THEN conjunct2, THEN conjunct2,
      THEN conjunct2, THEN conjunct2]
  have tt: "True \<longrightarrow> True" by simp
  have in10: "(10 :: addr) \<in> set [11, 10]" by simp
  have fresh: "(12 :: addr) \<notin> set [11, 10]" by simp
  have n: "0 \<le> sint (4 :: intptr)" by simp
  from c2 [THEN conjunct1, THEN mp, OF conjI [OF top(1) blk11]]
  have c: "map_sum id (\<lambda>s1. map_option sw_depth (SwitchBlock_at s1 12))
        (SwitchBlock_ctor (\<lambda>s. - 1) 12 4 example_switches) = Inr (Some 5)"
    by simp
  with ctor have depth12: "map_option sw_depth (SwitchBlock_at s_new 12) = Some 5" by simp
  from c4 [THEN conjunct1, THEN mp, OF conjI [OF cont conjI [OF in10 range]]]
  have found: "find (SwitchBlock_at_or_below (SwitchBlock_at example_switches) 1) [11, 10] = Some 10" .
  from c3 [THEN conjunct1, THEN mp, OF conjI [OF chain conjI [OF range' tt]]]
  obtain a block inst s1 where
    f: "find (SwitchBlock_at_or_below (SwitchBlock_at example_switches) 1) [11, 10] = Some a"
    and b: "SwitchBlock_at example_switches a = Some block"
    and d: "SwitchBlock_Destination 11 1 True True example_switches
               = Some (Inr (\<lparr>jump_destination = inst,
                             written_outer_finally =
                               (if True then Some (sw_outer_finally block) else None),
                             written_context_depth =
                               (if True then Some (sw_context_depth block) else None)\<rparr>,
                            s1))"
    and nn: "inst \<noteq> None"
    and st: "SwitchBlock_join_of s1 a (1 - sw_depth block) = inst"
    by blast
  from f found have a: "a = 10" by simp
  with b blk10 have block: "block = \<lparr>sw_outer = None, sw_destinations = DirectChainedHashMap_new,
              sw_outer_finally = None, sw_case_count = 3, sw_depth = 0,
              sw_context_depth = 2, sw_try_index = - 1\<rparr>"
    by simp
  from d nn st a block
  have one: "\<exists>inst s1. SwitchBlock_Destination 11 1 True True example_switches
         = Some (Inr (\<lparr>jump_destination = inst, written_outer_finally = Some None,
                       written_context_depth = Some 2\<rparr>, s1))
        \<and> inst \<noteq> None \<and> SwitchBlock_join_of s1 10 1 = inst"
    by auto
  have top_chain: "SwitchBlock_chain (SwitchBlock_at example_switches)
      (switch_block example_switches) [11, 10]"
    using chain top by simp
  from c5 [THEN conjunct1, THEN mp,
      OF conjI [OF ctor conjI [OF top_chain conjI [OF cont conjI [OF fresh conjI [OF n room]]]]]]
  have grow: "SwitchBlock_chain (SwitchBlock_at s_new) (Some 12) [12, 11, 10]"
    "SwitchBlock_contiguous (SwitchBlock_at s_new) [12, 11, 10]"
    by simp_all
  from c6 [THEN conjunct1, THEN mp, OF ctor] top depth12
  obtain blk where top12: "switch_block s_new = Some 12"
    and blk12: "SwitchBlock_at s_new 12 = Some blk"
    and rec: "sw_case_count blk = 4" "sw_depth blk = 5" "sw_outer blk = Some 11"
      "sw_outer_finally blk = Some 20" "sw_context_depth blk = 3"
    by auto
  have below: "SwitchBlock_at_or_below (SwitchBlock_at s_new) 6 12"
    using blk12 rec by (simp add: SwitchBlock_at_or_below_def)
  from c7 [THEN conjunct1, THEN mp,
      OF conjI [OF ctor conjI [OF top_chain conjI [OF fresh conjI [OF below tt]]]]] top
  have jump12: "\<exists>inst s1. SwitchBlock_Destination 12 6 True True s_new
               = Some (Inr (\<lparr>jump_destination = inst,
                             written_outer_finally = Some (Some 20),
                             written_context_depth = Some 3\<rparr>, s1))
              \<and> inst \<noteq> None"
    by simp
  from ctor grow top12 blk12 rec jump12
  have built: "\<exists>s_new blk. SwitchBlock_ctor (\<lambda>s. - 1) 12 4 example_switches = Inr s_new
         \<and> SwitchBlock_chain (SwitchBlock_at s_new) (Some 12) [12, 11, 10]
         \<and> SwitchBlock_contiguous (SwitchBlock_at s_new) [12, 11, 10]
         \<and> switch_block s_new = Some 12
         \<and> SwitchBlock_at s_new 12 = Some blk
         \<and> sw_case_count blk = 4 \<and> sw_depth blk = 5 \<and> sw_outer blk = Some 11
         \<and> sw_outer_finally blk = Some 20 \<and> sw_context_depth blk = 3
         \<and> (\<exists>inst s1. SwitchBlock_Destination 12 6 True True s_new
               = Some (Inr (\<lparr>jump_destination = inst,
                             written_outer_finally = Some (Some 20),
                             written_context_depth = Some 3\<rparr>, s1))
              \<and> inst \<noteq> None)"
    by blast
  obtain s_outer where o: "SwitchBlock_ctor (\<lambda>s. - 1) 10 3 example_translation = Inr s_outer"
    by (simp add: SwitchBlock_ctor_def example_translation_def)
  have none: "switch_block example_translation = None"
    by (simp add: example_translation_def)
  from C3_switch_case_numbering [where s = example_translation and new = 10
      and cti = "\<lambda>s. - 1" and n = 3, THEN conjunct1, THEN mp, OF none] o
  have d10: "map_option sw_depth (SwitchBlock_at s_outer 10) = Some 0" by simp
  from C3_switch_case_numbering [where s = example_translation and new = 10
      and cti = "\<lambda>s. - 1" and n = 3 and s_new = s_outer, THEN conjunct2, THEN conjunct2,
      THEN conjunct2, THEN conjunct2, THEN conjunct2, THEN conjunct1, THEN mp, OF o]
  have top10: "switch_block s_outer = Some 10"
    and live10: "\<exists>blk. SwitchBlock_at s_outer 10 = Some blk"
    by auto
  obtain s_inner where i: "SwitchBlock_ctor (\<lambda>s. - 1) 11 2 s_outer = Inr s_inner"
    using top10 live10 by (auto simp: SwitchBlock_ctor_def)
  have ne: "(11 :: addr) \<noteq> 10" by simp
  from C3_switch_case_numbering [where s = example_translation and new = 10
      and cti = "\<lambda>s. - 1" and n = 3 and s_new = s_outer and ?cti2.0 = "\<lambda>s. - 1"
      and inner_this = 11 and n_inner = 2 and s_inner = s_inner, THEN conjunct2,
      THEN conjunct2, THEN conjunct2, THEN conjunct2, THEN conjunct2, THEN conjunct2,
      THEN conjunct2, THEN mp, OF conjI [OF o conjI [OF i ne]]]
  obtain outer_blk inner_blk where
    ob: "SwitchBlock_at s_inner 10 = Some outer_blk"
    and ib: "SwitchBlock_at s_inner 11 = Some inner_blk"
    and counts: "sw_case_count outer_blk = 3" "sw_case_count inner_blk = 2"
    and dep: "sw_depth inner_blk = sw_depth outer_blk + 3"
    by blast
  from C3_switch_case_numbering [where s = s_outer and new = 11 and cti = "\<lambda>s. - 1"
      and n = 2 and s_new = s_inner, THEN conjunct2, THEN conjunct2, THEN conjunct2,
      THEN conjunct2, THEN conjunct2, THEN conjunct1, THEN mp, OF i] ne ob d10
  have "sw_depth outer_blk = 0" by auto
  with o i ob ib counts dep
  have nested: "\<exists>s_outer s_inner outer_blk inner_blk.
         SwitchBlock_ctor (\<lambda>s. - 1) 10 3 example_translation = Inr s_outer
       \<and> SwitchBlock_ctor (\<lambda>s. - 1) 11 2 s_outer = Inr s_inner
       \<and> SwitchBlock_at s_inner 10 = Some outer_blk
       \<and> SwitchBlock_at s_inner 11 = Some inner_blk
       \<and> sw_depth outer_blk = 0 \<and> sw_case_count outer_blk = 3
       \<and> sw_depth inner_blk = 3 \<and> sw_case_count inner_blk = 2"
    by auto
  from chain cont range found one ev c built nested show ?thesis by (intro conjI)
qed

text \<open>
  C6: in any sequence of requests from one block of a chain, requests for the same
  absolute case number return the same join entry, and each returned entry is the one
  the chain holds for that case afterwards. A request for a case that had no jumper
  allocates a new join entry, tagged with the owning block's try-index, and stores it in
  the owning block's map; a request for a case that had one changes nothing; the same
  request repeated at once returns the same entry and leaves the state as it is. No other
  case gets a jumper by the request, and a block just constructed has no jumper at all.
\<close>

theorem C6_switch_destination_lazy_idempotent:
  "(SwitchBlock_chain (SwitchBlock_at s) (Some this) as
      \<and> (\<forall>M \<in> set Ns. \<exists>a \<in> set as. SwitchBlock_at_or_below (SwitchBlock_at s) M a)
     \<longrightarrow> (\<exists>js s2. SwitchBlock_Destinations this Ns s = Some (Inr (js, s2))
            \<and> js = map (SwitchBlock_resolved s2 as) Ns
            \<and> None \<notin> set js
            \<and> (\<forall>i < length Ns. \<forall>k < length Ns. Ns ! i = Ns ! k \<longrightarrow> js ! i = js ! k)))
   \<and> (SwitchBlock_chain (SwitchBlock_at s) (Some this) as
      \<and> find (SwitchBlock_at_or_below (SwitchBlock_at s) N) as = Some a
      \<and> SwitchBlock_at s a = Some block
      \<and> (outer_finally \<longrightarrow> context_depth_out)
     \<longrightarrow> (\<exists>jump s1.
           SwitchBlock_Destination this N outer_finally context_depth_out s
             = Some (Inr (jump, s1))
         \<and> (\<not> SwitchBlock_HadJumper block (N - sw_depth block)
              \<longrightarrow> jump_destination jump = Some (length (zone s))
                  \<and> zone s1 = zone s @ [\<lparr>join_block_id = last_used_block_id s + 1,
                                          join_try_index = sw_try_index block\<rparr>]
                  \<and> SwitchBlock_at s1 = (SwitchBlock_at s)
                       (a \<mapsto> block\<lparr>sw_destinations :=
                                    IntMap_Insert (sw_destinations block) (N - sw_depth block)
                                      (jump_destination jump)\<rparr>))
         \<and> (SwitchBlock_HadJumper block (N - sw_depth block)
              \<longrightarrow> s1 = s
                  \<and> jump_destination jump
                      = IntMap_Lookup (sw_destinations block) (N - sw_depth block))
         \<and> (\<exists>block1. SwitchBlock_at s1 a = Some block1
                \<and> SwitchBlock_HadJumper block1 (N - sw_depth block)
                \<and> IntMap_Lookup (sw_destinations block1) (N - sw_depth block)
                    = jump_destination jump
                \<and> (\<forall>k. k \<noteq> N - sw_depth block
                      \<longrightarrow> SwitchBlock_HadJumper block1 k = SwitchBlock_HadJumper block k))
         \<and> (\<forall>x k. (x, k) \<noteq> (a, N - sw_depth block)
              \<longrightarrow> SwitchBlock_join_of s1 x k = SwitchBlock_join_of s x k)
         \<and> (\<forall>of2 cd2. (of2 \<longrightarrow> cd2)
              \<longrightarrow> (\<exists>jump2. SwitchBlock_Destination this N of2 cd2 s1 = Some (Inr (jump2, s1))
                     \<and> jump_destination jump2 = jump_destination jump))))
   \<and> (SwitchBlock_ctor cti new n s = Inr s_new
     \<longrightarrow> (\<exists>blk. SwitchBlock_at s_new new = Some blk \<and> (\<forall>k. \<not> SwitchBlock_HadJumper blk k)))"
proof -
  have run: "\<exists>js s2. SwitchBlock_Destinations this Ns s = Some (Inr (js, s2))
            \<and> js = map (SwitchBlock_resolved s2 as) Ns
            \<and> None \<notin> set js
            \<and> (\<forall>i < length Ns. \<forall>k < length Ns. Ns ! i = Ns ! k \<longrightarrow> js ! i = js ! k)"
    if chain: "SwitchBlock_chain (SwitchBlock_at s) (Some this) as"
      and cover: "\<forall>M \<in> set Ns. \<exists>a \<in> set as. SwitchBlock_at_or_below (SwitchBlock_at s) M a"
  proof -
    from cover have "\<forall>M \<in> set Ns. find (SwitchBlock_at_or_below (SwitchBlock_at s) M) as \<noteq> None"
      by (auto simp: find_None_iff)
    from SwitchBlock_Destinations_run [OF chain this] obtain js s2 where
      r: "SwitchBlock_Destinations this Ns s = Some (Inr (js, s2))"
      and js: "js = map (SwitchBlock_resolved s2 as) Ns" and nn: "None \<notin> set js"
      by blast
    from js have "\<forall>i < length Ns. \<forall>k < length Ns. Ns ! i = Ns ! k \<longrightarrow> js ! i = js ! k"
      by simp
    with r js nn show ?thesis by blast
  qed
  from run SwitchBlock_Destination_lazy [of s this as N a block outer_finally context_depth_out]
    SwitchBlock_ctor_no_jumper [of cti new n s s_new]
  show ?thesis by blast
qed

theorem C6_switch_destination_lazy_idempotent_witness:
  "SwitchBlock_chain (SwitchBlock_at example_switches) (Some 11) [11, 10]
   \<and> map_option (map_sum id fst)
        (SwitchBlock_Destinations 11 [1, 4, 1, 0, 4] example_switches)
       = Some (Inr [Some 0, Some 1, Some 0, Some 2, Some 1])
   \<and> (\<exists>js s2. SwitchBlock_Destinations 11 [1, 4, 1, 0, 4] example_switches
                = Some (Inr (js, s2))
              \<and> js = map (SwitchBlock_resolved s2 [11, 10]) [1, 4, 1, 0, 4]
              \<and> None \<notin> set js \<and> js ! 0 = js ! 2 \<and> js ! 1 = js ! 4)
   \<and> (\<exists>jump s1. SwitchBlock_Destination 11 1 False False example_switches
                  = Some (Inr (jump, s1))
              \<and> jump_destination jump = Some 0
              \<and> zone s1 = [\<lparr>join_block_id = 1, join_try_index = - 1\<rparr>]
              \<and> (\<exists>jump2. SwitchBlock_Destination 11 1 True True s1 = Some (Inr (jump2, s1))
                    \<and> jump_destination jump2 = Some 0))
   \<and> (\<exists>s_new blk. SwitchBlock_ctor (\<lambda>s. - 1) 12 4 example_switches = Inr s_new
         \<and> SwitchBlock_at s_new 12 = Some blk \<and> \<not> SwitchBlock_HadJumper blk 0)"
proof -
  have chain: "SwitchBlock_chain (SwitchBlock_at example_switches) (Some 11) [11, 10]"
    by (simp add: example_switches_def)
  have cover: "\<forall>M \<in> set [1, 4, 1, 0, 4].
                 \<exists>a \<in> set [11, 10]. SwitchBlock_at_or_below (SwitchBlock_at example_switches) M a"
    by (simp add: example_switches_def SwitchBlock_at_or_below_def)
  have found: "find (SwitchBlock_at_or_below (SwitchBlock_at example_switches) 1) [11, 10] = Some 10"
    by (simp add: example_switches_def SwitchBlock_at_or_below_def)
  have blk: "SwitchBlock_at example_switches 10
      = Some \<lparr>sw_outer = None, sw_destinations = DirectChainedHashMap_new,
              sw_outer_finally = None, sw_case_count = 3, sw_depth = 0,
              sw_context_depth = 2, sw_try_index = - 1\<rparr>"
    by (simp add: example_switches_def)
  have nj: "\<not> SwitchBlock_HadJumper \<lparr>sw_outer = None, sw_destinations = DirectChainedHashMap_new,
              sw_outer_finally = None, sw_case_count = 3, sw_depth = 0,
              sw_context_depth = 2, sw_try_index = - 1\<rparr> 1"
    by (simp add: SwitchBlock_HadJumper_def IntMap_Lookup_def DirectChainedHashMap_Lookup_def
        DirectChainedHashMap_new_def default_option_def)
  have z: "zone example_switches = []" "last_used_block_id example_switches = 0"
    by (simp_all add: example_switches_def example_translation_def)
  obtain s_new where ctor: "SwitchBlock_ctor (\<lambda>s. - 1) 12 4 example_switches = Inr s_new"
    by (simp add: SwitchBlock_ctor_def example_switches_def)
  have ev: "map_option (map_sum id fst)
        (SwitchBlock_Destinations 11 [1, 4, 1, 0, 4] example_switches)
       = Some (Inr [Some 0, Some 1, Some 0, Some 2, Some 1])"
    by (simp add: SwitchBlock_Destination_def SwitchBlock_find.simps
        SwitchBlock_EnsureDestination_def BuildJoinEntry_def AllocateBlockId_def
        IntMap_Lookup_def IntMap_Insert_def DirectChainedHashMap_Insert_def
        DirectChainedHashMap_Lookup_def DirectChainedHashMap_new_def
        default_option_def example_switches_def example_translation_def Let_def)
  note at_example = C6_switch_destination_lazy_idempotent [of example_switches 11 "[11, 10]"
      "[1, 4, 1, 0, 4]" 1 10
      "\<lparr>sw_outer = None, sw_destinations = DirectChainedHashMap_new,
              sw_outer_finally = None, sw_case_count = 3, sw_depth = 0,
              sw_context_depth = 2, sw_try_index = - 1\<rparr>" False False "\<lambda>s. - 1" 12 4 s_new]
  from at_example [THEN conjunct1, THEN mp, OF conjI [OF chain cover]]
  obtain js s2 where
    r: "SwitchBlock_Destinations 11 [1, 4, 1, 0, 4] example_switches = Some (Inr (js, s2))"
    and js: "js = map (SwitchBlock_resolved s2 [11, 10]) [1, 4, 1, 0, 4]"
    and nn: "None \<notin> set js"
    and same: "\<forall>i < length [1, 4, 1, 0, 4 :: intptr]. \<forall>k < length [1, 4, 1, 0, 4 :: intptr].
                 [1, 4, 1, 0, 4 :: intptr] ! i = [1, 4, 1, 0, 4] ! k \<longrightarrow> js ! i = js ! k"
    by blast
  from same [THEN spec, of 0, THEN mp, THEN spec, of 2] have s02: "js ! 0 = js ! 2" by simp
  from same [THEN spec, of 1, THEN mp, THEN spec, of 4] have s14: "js ! 1 = js ! 4" by simp
  from r js nn s02 s14
  have a: "\<exists>js s2. SwitchBlock_Destinations 11 [1, 4, 1, 0, 4] example_switches
                = Some (Inr (js, s2))
              \<and> js = map (SwitchBlock_resolved s2 [11, 10]) [1, 4, 1, 0, 4]
              \<and> None \<notin> set js \<and> js ! 0 = js ! 2 \<and> js ! 1 = js ! 4"
    by blast
  have ff: "False \<longrightarrow> False" by simp
  from at_example [THEN conjunct2, THEN conjunct1, THEN mp,
      OF conjI [OF chain conjI [OF found conjI [OF blk ff]]]]
  obtain jump s1 where
    d: "SwitchBlock_Destination 11 1 False False example_switches = Some (Inr (jump, s1))"
    and fresh: "jump_destination jump = Some (length (zone example_switches))
                \<and> zone s1 = zone example_switches
                     @ [\<lparr>join_block_id = last_used_block_id example_switches + 1,
                         join_try_index = - 1\<rparr>]"
    and again: "\<forall>of2 cd2. (of2 \<longrightarrow> cd2)
              \<longrightarrow> (\<exists>jump2. SwitchBlock_Destination 11 1 of2 cd2 s1 = Some (Inr (jump2, s1))
                     \<and> jump_destination jump2 = jump_destination jump)"
    using nj by auto
  from again [THEN spec, of True, THEN spec, of True] fresh z
  have "\<exists>jump2. SwitchBlock_Destination 11 1 True True s1 = Some (Inr (jump2, s1))
                \<and> jump_destination jump2 = Some 0"
    by simp
  with d fresh z
  have b: "\<exists>jump s1. SwitchBlock_Destination 11 1 False False example_switches
                  = Some (Inr (jump, s1))
              \<and> jump_destination jump = Some 0
              \<and> zone s1 = [\<lparr>join_block_id = 1, join_try_index = - 1\<rparr>]
              \<and> (\<exists>jump2. SwitchBlock_Destination 11 1 True True s1 = Some (Inr (jump2, s1))
                    \<and> jump_destination jump2 = Some 0)"
    by auto
  from at_example [THEN conjunct2, THEN conjunct2, THEN mp, OF ctor] ctor
  have c: "\<exists>s_new blk. SwitchBlock_ctor (\<lambda>s. - 1) 12 4 example_switches = Inr s_new
         \<and> SwitchBlock_at s_new 12 = Some blk \<and> \<not> SwitchBlock_HadJumper blk 0"
    by blast
  from chain ev a b c show ?thesis by (intro conjI)
qed

subsection \<open>Break destinations\<close>

lemma BreakableBlock_has_index_Some:
  "h x = Some blk \<Longrightarrow> BreakableBlock_has_index h l x = (bb_index blk = l)"
  by (simp add: BreakableBlock_has_index_def)

lemma BreakableBlock_find_on_chain:
  assumes "BreakableBlock_chain h p as"
    and "find (BreakableBlock_has_index h l) as = Some a"
  shows "BreakableBlock_find h p l = Some (Inr a)"
  using assms
proof (induction as arbitrary: p)
  case Nil
  then show ?case by simp
next
  case (Cons x xs)
  from Cons.prems(1) obtain blk where p: "p = Some x" and hx: "h x = Some blk"
    and rest: "BreakableBlock_chain h (bb_outer blk) xs"
    by (auto split: option.splits)
  show ?case
  proof (cases "bb_index blk = l")
    case True
    with Cons.prems(2) hx have "a = x" by (simp add: BreakableBlock_has_index_Some)
    with True p hx show ?thesis by (subst BreakableBlock_find.simps) simp
  next
    case False
    with Cons.prems(2) hx have "find (BreakableBlock_has_index h l) xs = Some a"
      by (simp add: BreakableBlock_has_index_Some)
    from Cons.IH [OF rest this] False p hx
    show ?thesis by (subst BreakableBlock_find.simps) simp
  qed
qed

lemma find_has_index_block:
  assumes "find (BreakableBlock_has_index h l) as = Some a"
  obtains blk where "h a = Some blk" and "bb_index blk = l"
proof -
  from assms have "BreakableBlock_has_index h l a" by (auto simp: find_Some_iff)
  with that show ?thesis
    by (auto simp: BreakableBlock_has_index_def split: option.splits)
qed

lemma BreakableBlock_EnsureDestination_new:
  assumes "BreakableBlock_at s a = Some block" and "bb_destination block = None"
  shows "BreakableBlock_EnsureDestination a s =
           Inr (Some (length (zone s)),
                s\<lparr>last_used_block_id := last_used_block_id s + 1,
                  zone := zone s @ [\<lparr>join_block_id = last_used_block_id s + 1,
                                     join_try_index = bb_try_index block\<rparr>],
                  BreakableBlock_at := (BreakableBlock_at s)
                    (a \<mapsto> block\<lparr>bb_destination := Some (length (zone s))\<rparr>)\<rparr>)"
  using assms
  by (simp add: BreakableBlock_EnsureDestination_def BuildJoinEntry_def AllocateBlockId_def)

lemma BreakableBlock_EnsureDestination_cached:
  assumes "BreakableBlock_at s a = Some block" and "bb_destination block = Some j"
  shows "BreakableBlock_EnsureDestination a s = Inr (Some j, s)"
  using assms by (simp add: BreakableBlock_EnsureDestination_def)

lemma BreakableBlock_EnsureDestination_cases:
  assumes blk: "BreakableBlock_at s a = Some block"
    and e: "BreakableBlock_EnsureDestination a s = Inr (inst, s1)"
  obtains (fresh) "bb_destination block = None"
      "inst = Some (length (zone s))"
      "s1 = s\<lparr>last_used_block_id := last_used_block_id s + 1,
                zone := zone s @ [\<lparr>join_block_id = last_used_block_id s + 1,
                                   join_try_index = bb_try_index block\<rparr>],
                BreakableBlock_at := (BreakableBlock_at s)
                  (a \<mapsto> block\<lparr>bb_destination := Some (length (zone s))\<rparr>)\<rparr>"
    | (cached) j where "bb_destination block = Some j" "inst = Some j" "s1 = s"
proof (cases "bb_destination block")
  case None
  from BreakableBlock_EnsureDestination_new [OF blk None] e fresh [OF None] show ?thesis
    by simp
next
  case (Some j)
  from BreakableBlock_EnsureDestination_cached [OF blk Some] e cached [OF Some] show ?thesis
    by simp
qed

lemma BreakableBlock_EnsureDestination_total:
  assumes "BreakableBlock_at s a = Some block"
  shows "\<exists>inst s1. BreakableBlock_EnsureDestination a s = Inr (inst, s1)"
  using assms
  by (simp add: BreakableBlock_EnsureDestination_def BuildJoinEntry_def AllocateBlockId_def)

lemma BreakableBlock_EnsureDestination_effect:
  assumes blk: "BreakableBlock_at s a = Some block"
    and e: "BreakableBlock_EnsureDestination a s = Inr (inst, s1)"
  shows "inst \<noteq> None"
    and "map_option BreakableBlock_destination (BreakableBlock_at s1 a) = Some inst"
    and "BreakableBlock_shape s1 = BreakableBlock_shape s"
    and "breakable_block s1 = breakable_block s"
    and "\<And>x b j. BreakableBlock_at s x = Some b \<Longrightarrow> bb_destination b = Some j
           \<Longrightarrow> map_option BreakableBlock_destination (BreakableBlock_at s1 x) = Some (Some j)"
proof -
  show "inst \<noteq> None"
    using blk e by (rule BreakableBlock_EnsureDestination_cases) simp_all
  show "map_option BreakableBlock_destination (BreakableBlock_at s1 a) = Some inst"
    using blk e
    by (rule BreakableBlock_EnsureDestination_cases)
      (simp_all add: blk BreakableBlock_destination_def)
  show "BreakableBlock_shape s1 = BreakableBlock_shape s"
    using blk e
    by (rule BreakableBlock_EnsureDestination_cases)
      (auto simp: blk BreakableBlock_shape_def fun_eq_iff)
  show "breakable_block s1 = breakable_block s"
    using blk e by (rule BreakableBlock_EnsureDestination_cases) simp_all
  show "map_option BreakableBlock_destination (BreakableBlock_at s1 x) = Some (Some j)"
    if "BreakableBlock_at s x = Some b" and "bb_destination b = Some j" for x b j
    using blk e
  proof (rule BreakableBlock_EnsureDestination_cases)
    assume "bb_destination block = None"
      and "s1 = s\<lparr>last_used_block_id := last_used_block_id s + 1,
                zone := zone s @ [\<lparr>join_block_id = last_used_block_id s + 1,
                                   join_try_index = bb_try_index block\<rparr>],
                BreakableBlock_at := (BreakableBlock_at s)
                  (a \<mapsto> block\<lparr>bb_destination := Some (length (zone s))\<rparr>)\<rparr>"
    with that blk show ?thesis
      by (auto simp: BreakableBlock_destination_def)
  next
    assume "s1 = s"
    with that show ?thesis by (simp add: BreakableBlock_destination_def)
  qed
qed

lemma bb_shape_outer:
  assumes "BreakableBlock_shape s1 = BreakableBlock_shape s"
  shows "map_option bb_outer (BreakableBlock_at s1 x) = map_option bb_outer (BreakableBlock_at s x)"
proof -
  from assms have "BreakableBlock_shape s1 x = BreakableBlock_shape s x" by simp
  then show ?thesis
    by (cases "BreakableBlock_at s1 x"; cases "BreakableBlock_at s x")
      (simp_all add: BreakableBlock_shape_def)
qed

lemma bb_shape_index:
  assumes "BreakableBlock_shape s1 = BreakableBlock_shape s"
  shows "map_option bb_index (BreakableBlock_at s1 x) = map_option bb_index (BreakableBlock_at s x)"
proof -
  from assms have "BreakableBlock_shape s1 x = BreakableBlock_shape s x" by simp
  then show ?thesis
    by (cases "BreakableBlock_at s1 x"; cases "BreakableBlock_at s x")
      (simp_all add: BreakableBlock_shape_def)
qed

lemma BreakableBlock_chain_shape:
  assumes "\<And>x. map_option bb_outer (h' x) = map_option bb_outer (h x)"
  shows "BreakableBlock_chain h' p as = BreakableBlock_chain h p as"
proof (induction as arbitrary: p)
  case Nil
  show ?case by simp
next
  case (Cons x xs)
  show ?case
  proof (cases "h x")
    case None
    with assms [of x] show ?thesis by simp
  next
    case (Some blk)
    with assms [of x] obtain blk' where "h' x = Some blk'" and "bb_outer blk' = bb_outer blk"
      by auto
    with Some Cons.IH [of "bb_outer blk"] show ?thesis by simp
  qed
qed

lemma bb_shape_chain:
  "BreakableBlock_shape s1 = BreakableBlock_shape s
   \<Longrightarrow> BreakableBlock_chain (BreakableBlock_at s1) p as
       = BreakableBlock_chain (BreakableBlock_at s) p as"
  by (rule BreakableBlock_chain_shape) (rule bb_shape_outer)

lemma bb_shape_find:
  assumes "BreakableBlock_shape s1 = BreakableBlock_shape s"
  shows "find (BreakableBlock_has_index (BreakableBlock_at s1) l) as
         = find (BreakableBlock_has_index (BreakableBlock_at s) l) as"
proof -
  have "BreakableBlock_has_index (BreakableBlock_at s1) l x
        = BreakableBlock_has_index (BreakableBlock_at s) l x" for x
    using bb_shape_index [OF assms, of x]
    by (auto simp: BreakableBlock_has_index_def split: option.splits)
  then have "BreakableBlock_has_index (BreakableBlock_at s1) l
             = BreakableBlock_has_index (BreakableBlock_at s) l"
    by (rule ext)
  then show ?thesis by simp
qed

lemma bb_shape_live:
  assumes "BreakableBlock_shape s1 = BreakableBlock_shape s"
  shows "(BreakableBlock_at s1 x = None) = (BreakableBlock_at s x = None)"
  using bb_shape_outer [OF assms, of x] by (metis option.map_disc_iff)

lemma BreakableBlock_BreakDestination_step:
  assumes chain: "BreakableBlock_chain (BreakableBlock_at s) (breakable_block s) as"
    and found: "find (BreakableBlock_has_index (BreakableBlock_at s) l) as = Some a"
    and blk: "BreakableBlock_at s a = Some block"
    and live: "BreakableBlock_at s this \<noteq> None"
  shows "\<exists>inst s1.
           BreakableBlock_BreakDestination this l True True s
             = Some (Inr (\<lparr>jump_destination = inst,
                           written_outer_finally = Some (bb_outer_finally block),
                           written_context_depth = Some (bb_context_depth block)\<rparr>, s1))
         \<and> BreakableBlock_EnsureDestination a s = Inr (inst, s1)"
proof -
  from BreakableBlock_find_on_chain [OF chain found]
  have w: "BreakableBlock_find (BreakableBlock_at s) (breakable_block s) l = Some (Inr a)" .
  from BreakableBlock_EnsureDestination_total [OF blk]
  obtain inst s1 where e: "BreakableBlock_EnsureDestination a s = Inr (inst, s1)" by blast
  from w blk e live show ?thesis
    by (auto simp: BreakableBlock_BreakDestination_def)
qed

lemma BreakableBlock_resolved_eq:
  assumes "find (BreakableBlock_has_index (BreakableBlock_at s) l) as = Some a"
  shows "Some (BreakableBlock_resolved s as l)
         = map_option BreakableBlock_destination (BreakableBlock_at s a)"
proof -
  from find_has_index_block [OF assms] obtain blk where "BreakableBlock_at s a = Some blk"
    by blast
  with assms show ?thesis by (simp add: BreakableBlock_resolved_def)
qed

lemma BreakableBlock_BreakDestinations_run:
  assumes "BreakableBlock_chain (BreakableBlock_at s) (breakable_block s) as"
    and "\<forall>l \<in> set ls. find (BreakableBlock_has_index (BreakableBlock_at s) l) as \<noteq> None"
    and "BreakableBlock_at s this \<noteq> None"
  shows "\<exists>js s2. BreakableBlock_BreakDestinations this ls s = Some (Inr (js, s2))
           \<and> BreakableBlock_shape s2 = BreakableBlock_shape s
           \<and> breakable_block s2 = breakable_block s
           \<and> (\<forall>x b j. BreakableBlock_at s x = Some b \<and> bb_destination b = Some j
                 \<longrightarrow> map_option BreakableBlock_destination (BreakableBlock_at s2 x)
                     = Some (Some j))
           \<and> js = map (BreakableBlock_resolved s2 as) ls
           \<and> None \<notin> set js"
  using assms
proof (induction ls arbitrary: s)
  case Nil
  then show ?case by (simp add: BreakableBlock_destination_def)
next
  case (Cons l ls)
  from Cons.prems(2) obtain a where
    found: "find (BreakableBlock_has_index (BreakableBlock_at s) l) as = Some a"
    by auto
  from find_has_index_block [OF found] obtain block where
    blk: "BreakableBlock_at s a = Some block"
    by blast
  from BreakableBlock_BreakDestination_step [OF Cons.prems(1) found blk Cons.prems(3)]
  obtain inst s1 where
    d: "BreakableBlock_BreakDestination this l True True s
          = Some (Inr (\<lparr>jump_destination = inst,
                        written_outer_finally = Some (bb_outer_finally block),
                        written_context_depth = Some (bb_context_depth block)\<rparr>, s1))"
    and e: "BreakableBlock_EnsureDestination a s = Inr (inst, s1)"
    by auto
  note eff = BreakableBlock_EnsureDestination_effect [OF blk e]
  from eff(1) obtain j where inst: "inst = Some j" by auto
  have chain1: "BreakableBlock_chain (BreakableBlock_at s1) (breakable_block s1) as"
    using Cons.prems(1) bb_shape_chain [OF eff(3)] eff(4) by simp
  have finds1: "\<forall>m \<in> set ls. find (BreakableBlock_has_index (BreakableBlock_at s1) m) as \<noteq> None"
    using Cons.prems(2) bb_shape_find [OF eff(3)] by simp
  have live1: "BreakableBlock_at s1 this \<noteq> None"
    using Cons.prems(3) bb_shape_live [OF eff(3)] by simp
  from Cons.IH [OF chain1 finds1 live1] obtain js s2 where
    run: "BreakableBlock_BreakDestinations this ls s1 = Some (Inr (js, s2))"
    and shape2: "BreakableBlock_shape s2 = BreakableBlock_shape s1"
    and top2: "breakable_block s2 = breakable_block s1"
    and mono2: "\<And>x b j. BreakableBlock_at s1 x = Some b \<Longrightarrow> bb_destination b = Some j
                  \<Longrightarrow> map_option BreakableBlock_destination (BreakableBlock_at s2 x)
                      = Some (Some j)"
    and js: "js = map (BreakableBlock_resolved s2 as) ls"
    and nn: "None \<notin> set js"
    by blast
  have shape: "BreakableBlock_shape s2 = BreakableBlock_shape s" using shape2 eff(3) by simp
  have found2: "find (BreakableBlock_has_index (BreakableBlock_at s2) l) as = Some a"
    using found bb_shape_find [OF shape] by simp
  from eff(2) inst obtain b1 where b1: "BreakableBlock_at s1 a = Some b1"
    and d1: "bb_destination b1 = Some j"
    by (auto simp: BreakableBlock_destination_def)
  from BreakableBlock_resolved_eq [OF found2] mono2 [OF b1 d1]
  have res: "BreakableBlock_resolved s2 as l = inst" using inst by simp
  have mono: "\<forall>x b j. BreakableBlock_at s x = Some b \<and> bb_destination b = Some j
                 \<longrightarrow> map_option BreakableBlock_destination (BreakableBlock_at s2 x)
                     = Some (Some j)"
  proof (intro allI impI)
    fix x b j' assume h: "BreakableBlock_at s x = Some b \<and> bb_destination b = Some j'"
    with eff(5) [of x b j'] obtain b' where "BreakableBlock_at s1 x = Some b'"
      and "bb_destination b' = Some j'"
      by (auto simp: BreakableBlock_destination_def)
    from mono2 [OF this]
    show "map_option BreakableBlock_destination (BreakableBlock_at s2 x) = Some (Some j')" .
  qed
  from d run shape top2 eff(4) mono js nn res inst show ?case by simp
qed

lemma BreakableBlock_BreakDestination_again:
  assumes chain: "BreakableBlock_chain (BreakableBlock_at s) (breakable_block s) as"
    and found: "find (BreakableBlock_has_index (BreakableBlock_at s) l) as = Some a"
    and blk: "BreakableBlock_at s a = Some block"
    and live: "BreakableBlock_at s this \<noteq> None"
    and e: "BreakableBlock_EnsureDestination a s = Inr (inst, s1)"
  shows "BreakableBlock_BreakDestination this l True True s1
           = Some (Inr (\<lparr>jump_destination = inst,
                         written_outer_finally = Some (bb_outer_finally block),
                         written_context_depth = Some (bb_context_depth block)\<rparr>, s1))"
proof -
  note eff = BreakableBlock_EnsureDestination_effect [OF blk e]
  from eff(1) obtain j where inst: "inst = Some j" by auto
  have chain1: "BreakableBlock_chain (BreakableBlock_at s1) (breakable_block s1) as"
    using chain bb_shape_chain [OF eff(3)] eff(4) by simp
  have found1: "find (BreakableBlock_has_index (BreakableBlock_at s1) l) as = Some a"
    using found bb_shape_find [OF eff(3)] by simp
  have live1: "BreakableBlock_at s1 this \<noteq> None"
    using live bb_shape_live [OF eff(3)] by simp
  from eff(2) inst obtain b1 where b1: "BreakableBlock_at s1 a = Some b1"
    and d1: "bb_destination b1 = Some j"
    by (auto simp: BreakableBlock_destination_def)
  have same: "bb_outer_finally b1 = bb_outer_finally block
              \<and> bb_context_depth b1 = bb_context_depth block"
    using blk e by (rule BreakableBlock_EnsureDestination_cases) (use b1 blk in auto)
  from BreakableBlock_BreakDestination_step [OF chain1 found1 b1 live1]
    BreakableBlock_EnsureDestination_cached [OF b1 d1] same inst
  show ?thesis by auto
qed

lemma BreakableBlock_ctor_records:
  assumes "BreakableBlock_ctor cti new s = Inr s_new"
  shows "\<exists>blk. BreakableBlock_at s_new new = Some blk
           \<and> bb_outer_finally blk = try_finally_block s
           \<and> bb_context_depth blk = context_depth s
           \<and> \<not> BreakableBlock_HadJumper blk
           \<and> (breakable_block s = None \<longrightarrow> bb_index blk = 0)
           \<and> (\<forall>oa outer_blk. breakable_block s = Some oa
                  \<and> BreakableBlock_at s oa = Some outer_blk
                \<longrightarrow> bb_index blk = bb_index outer_blk + 1)"
  using assms
  by (auto simp: BreakableBlock_ctor_def BreakableBlock_HadJumper_def Let_def
      split: option.splits sum.splits)

lemma example_breakables_built:
  "and_then (BreakableBlock_ctor (\<lambda>s. - 1) 30 example_translation)
     (\<lambda>s1. BreakableBlock_ctor (\<lambda>s. - 1) 31
        ((TryFinallyBlock_ctor (\<lambda>s. - 1) 20 100 s1)\<lparr>context_depth := 3\<rparr>))
   = Inr example_breakables"
  by (simp add: and_then_def BreakableBlock_ctor_def TryFinallyBlock_ctor_def
      example_translation_def example_breakables_def fun_upd_twist)

text \<open>
  C5: when some block of the builder's chain of breakable blocks has the label index,
  \<^verbatim>\<open>BreakDestination\<close> walks from the builder's innermost block to the first block
  with that index, returns that block's destination, which it allocates when the block
  had none and returns unchanged otherwise, and writes the block's recorded finally block
  and context depth through the out-pointers; the same request repeated returns the same
  entry. In any sequence of requests, equal label indices get equal join entries. The
  constructor records the builder's finally block and context depth of that moment, no
  destination, and an index one above the enclosing block's (0 without one).
\<close>

theorem C5_break_destination:
  "(BreakableBlock_chain (BreakableBlock_at s) (breakable_block s) as
      \<and> (\<exists>a \<in> set as. BreakableBlock_has_index (BreakableBlock_at s) label_index a)
      \<and> BreakableBlock_at s this \<noteq> None
     \<longrightarrow> (\<exists>a block inst s1.
           find (BreakableBlock_has_index (BreakableBlock_at s) label_index) as = Some a
         \<and> BreakableBlock_at s a = Some block
         \<and> BreakableBlock_BreakDestination this label_index True True s
             = Some (Inr (\<lparr>jump_destination = inst,
                           written_outer_finally = Some (bb_outer_finally block),
                           written_context_depth = Some (bb_context_depth block)\<rparr>, s1))
         \<and> inst \<noteq> None
         \<and> map_option BreakableBlock_destination (BreakableBlock_at s1 a) = Some inst
         \<and> (\<not> BreakableBlock_HadJumper block
              \<longrightarrow> inst = Some (length (zone s))
                  \<and> zone s1 = zone s @ [\<lparr>join_block_id = last_used_block_id s + 1,
                                          join_try_index = bb_try_index block\<rparr>])
         \<and> (BreakableBlock_HadJumper block
              \<longrightarrow> inst = BreakableBlock_destination block \<and> s1 = s)
         \<and> BreakableBlock_BreakDestination this label_index True True s1
             = Some (Inr (\<lparr>jump_destination = inst,
                           written_outer_finally = Some (bb_outer_finally block),
                           written_context_depth = Some (bb_context_depth block)\<rparr>, s1))))
   \<and> (BreakableBlock_chain (BreakableBlock_at s) (breakable_block s) as
      \<and> (\<forall>l \<in> set ls. \<exists>a \<in> set as. BreakableBlock_has_index (BreakableBlock_at s) l a)
      \<and> BreakableBlock_at s this \<noteq> None
     \<longrightarrow> (\<exists>js s2. BreakableBlock_BreakDestinations this ls s = Some (Inr (js, s2))
            \<and> js = map (BreakableBlock_resolved s2 as) ls
            \<and> None \<notin> set js
            \<and> (\<forall>i < length ls. \<forall>k < length ls. ls ! i = ls ! k \<longrightarrow> js ! i = js ! k)))
   \<and> (BreakableBlock_ctor cti new s = Inr s_new
     \<longrightarrow> (\<exists>blk. BreakableBlock_at s_new new = Some blk
           \<and> bb_outer_finally blk = try_finally_block s
           \<and> bb_context_depth blk = context_depth s
           \<and> \<not> BreakableBlock_HadJumper blk
           \<and> (breakable_block s = None \<longrightarrow> bb_index blk = 0)
           \<and> (\<forall>oa outer_blk. breakable_block s = Some oa
                  \<and> BreakableBlock_at s oa = Some outer_blk
                \<longrightarrow> bb_index blk = bb_index outer_blk + 1)))"
proof -
  have one: "\<exists>a block inst s1.
           find (BreakableBlock_has_index (BreakableBlock_at s) label_index) as = Some a
         \<and> BreakableBlock_at s a = Some block
         \<and> BreakableBlock_BreakDestination this label_index True True s
             = Some (Inr (\<lparr>jump_destination = inst,
                           written_outer_finally = Some (bb_outer_finally block),
                           written_context_depth = Some (bb_context_depth block)\<rparr>, s1))
         \<and> inst \<noteq> None
         \<and> map_option BreakableBlock_destination (BreakableBlock_at s1 a) = Some inst
         \<and> (\<not> BreakableBlock_HadJumper block
              \<longrightarrow> inst = Some (length (zone s))
                  \<and> zone s1 = zone s @ [\<lparr>join_block_id = last_used_block_id s + 1,
                                          join_try_index = bb_try_index block\<rparr>])
         \<and> (BreakableBlock_HadJumper block
              \<longrightarrow> inst = BreakableBlock_destination block \<and> s1 = s)
         \<and> BreakableBlock_BreakDestination this label_index True True s1
             = Some (Inr (\<lparr>jump_destination = inst,
                           written_outer_finally = Some (bb_outer_finally block),
                           written_context_depth = Some (bb_context_depth block)\<rparr>, s1))"
    if chain: "BreakableBlock_chain (BreakableBlock_at s) (breakable_block s) as"
      and some: "\<exists>a \<in> set as. BreakableBlock_has_index (BreakableBlock_at s) label_index a"
      and live: "BreakableBlock_at s this \<noteq> None"
  proof -
    from some have "find (BreakableBlock_has_index (BreakableBlock_at s) label_index) as \<noteq> None"
      by (auto simp: find_None_iff)
    then obtain a where
      found: "find (BreakableBlock_has_index (BreakableBlock_at s) label_index) as = Some a"
      by auto
    from find_has_index_block [OF found] obtain block where
      blk: "BreakableBlock_at s a = Some block" by blast
    from BreakableBlock_BreakDestination_step [OF chain found blk live] obtain inst s1 where
      d: "BreakableBlock_BreakDestination this label_index True True s
             = Some (Inr (\<lparr>jump_destination = inst,
                           written_outer_finally = Some (bb_outer_finally block),
                           written_context_depth = Some (bb_context_depth block)\<rparr>, s1))"
      and e: "BreakableBlock_EnsureDestination a s = Inr (inst, s1)"
      by blast
    note eff = BreakableBlock_EnsureDestination_effect [OF blk e]
    have fresh: "inst = Some (length (zone s))
                  \<and> zone s1 = zone s @ [\<lparr>join_block_id = last_used_block_id s + 1,
                                          join_try_index = bb_try_index block\<rparr>]"
      if "\<not> BreakableBlock_HadJumper block"
      using blk e
      by (rule BreakableBlock_EnsureDestination_cases)
        (use that in \<open>simp_all add: BreakableBlock_HadJumper_def\<close>)
    have cached: "inst = BreakableBlock_destination block \<and> s1 = s"
      if "BreakableBlock_HadJumper block"
      using blk e
      by (rule BreakableBlock_EnsureDestination_cases)
        (use that in \<open>simp_all add: BreakableBlock_HadJumper_def BreakableBlock_destination_def\<close>)
    note again = BreakableBlock_BreakDestination_again [OF chain found blk live e]
    from found blk d eff(1) eff(2) fresh cached again show ?thesis by blast
  qed
  have run: "\<exists>js s2. BreakableBlock_BreakDestinations this ls s = Some (Inr (js, s2))
            \<and> js = map (BreakableBlock_resolved s2 as) ls
            \<and> None \<notin> set js
            \<and> (\<forall>i < length ls. \<forall>k < length ls. ls ! i = ls ! k \<longrightarrow> js ! i = js ! k)"
    if chain: "BreakableBlock_chain (BreakableBlock_at s) (breakable_block s) as"
      and cover: "\<forall>l \<in> set ls. \<exists>a \<in> set as. BreakableBlock_has_index (BreakableBlock_at s) l a"
      and live: "BreakableBlock_at s this \<noteq> None"
  proof -
    from cover
    have "\<forall>l \<in> set ls. find (BreakableBlock_has_index (BreakableBlock_at s) l) as \<noteq> None"
      by (auto simp: find_None_iff)
    from BreakableBlock_BreakDestinations_run [OF chain this live] obtain js s2 where
      r: "BreakableBlock_BreakDestinations this ls s = Some (Inr (js, s2))"
      and js: "js = map (BreakableBlock_resolved s2 as) ls" and nn: "None \<notin> set js"
      by blast
    from js have "\<forall>i < length ls. \<forall>k < length ls. ls ! i = ls ! k \<longrightarrow> js ! i = js ! k"
      by simp
    with r js nn show ?thesis by blast
  qed
  from one run BreakableBlock_ctor_records [of cti new s s_new]
  show ?thesis by blast
qed

theorem C5_break_destination_witness:
  "BreakableBlock_chain (BreakableBlock_at example_breakables)
       (breakable_block example_breakables) [31, 30]
   \<and> BreakableBlock_has_index (BreakableBlock_at example_breakables) 0 30
   \<and> (\<exists>s1. BreakableBlock_BreakDestination 31 0 True True example_breakables
         = Some (Inr (\<lparr>jump_destination = Some 0, written_outer_finally = Some None,
                       written_context_depth = Some 2\<rparr>, s1))
        \<and> map_option BreakableBlock_destination (BreakableBlock_at s1 30) = Some (Some 0)
        \<and> zone s1 = [\<lparr>join_block_id = 1, join_try_index = - 1\<rparr>]
        \<and> BreakableBlock_BreakDestination 31 0 True True s1
         = Some (Inr (\<lparr>jump_destination = Some 0, written_outer_finally = Some None,
                       written_context_depth = Some 2\<rparr>, s1)))
   \<and> map_option (map_sum id fst)
        (BreakableBlock_BreakDestinations 31 [0, 1, 0, 1] example_breakables)
       = Some (Inr [Some 0, Some 1, Some 0, Some 1])
   \<and> (\<exists>js s2. BreakableBlock_BreakDestinations 31 [0, 1, 0, 1] example_breakables
                = Some (Inr (js, s2))
              \<and> None \<notin> set js \<and> js ! 0 = js ! 2 \<and> js ! 1 = js ! 3)
   \<and> (\<exists>s_new blk. BreakableBlock_ctor (\<lambda>s. - 1) 32 example_breakables = Inr s_new
         \<and> BreakableBlock_at s_new 32 = Some blk \<and> bb_index blk = 2
         \<and> bb_outer_finally blk = Some 20 \<and> bb_context_depth blk = 3)"
proof -
  have chain: "BreakableBlock_chain (BreakableBlock_at example_breakables)
       (breakable_block example_breakables) [31, 30]"
    by (simp add: example_breakables_def)
  have has: "BreakableBlock_has_index (BreakableBlock_at example_breakables) 0 30"
    by (simp add: example_breakables_def BreakableBlock_has_index_def)
  then have some: "\<exists>a \<in> set [31, 30]. BreakableBlock_has_index (BreakableBlock_at example_breakables) 0 a"
    by simp
  have cover: "\<forall>l \<in> set [0, 1, 0, 1].
      \<exists>a \<in> set [31, 30]. BreakableBlock_has_index (BreakableBlock_at example_breakables) l a"
    by (simp add: example_breakables_def BreakableBlock_has_index_def)
  have live: "BreakableBlock_at example_breakables 31 \<noteq> None"
    by (simp add: example_breakables_def)
  have found: "find (BreakableBlock_has_index (BreakableBlock_at example_breakables) 0) [31, 30]
               = Some 30"
    by (simp add: example_breakables_def BreakableBlock_has_index_def)
  have blk: "BreakableBlock_at example_breakables 30
      = Some \<lparr>bb_index = 0, bb_outer = None, bb_destination = None,
              bb_outer_finally = None, bb_context_depth = 2, bb_try_index = - 1\<rparr>"
    "BreakableBlock_at example_breakables 31
      = Some \<lparr>bb_index = 1, bb_outer = Some 30, bb_destination = None,
              bb_outer_finally = Some 20, bb_context_depth = 3, bb_try_index = - 1\<rparr>"
    "breakable_block example_breakables = Some 31"
    "try_finally_block example_breakables = Some 20"
    "context_depth example_breakables = 3"
    "zone example_breakables = []" "last_used_block_id example_breakables = 0"
    by (simp_all add: example_breakables_def example_translation_def)
  obtain s_new where ctor: "BreakableBlock_ctor (\<lambda>s. - 1) 32 example_breakables = Inr s_new"
    by (simp add: BreakableBlock_ctor_def example_breakables_def)
  have ev: "map_option (map_sum id fst)
        (BreakableBlock_BreakDestinations 31 [0, 1, 0, 1] example_breakables)
       = Some (Inr [Some 0, Some 1, Some 0, Some 1])"
    by (simp add: BreakableBlock_BreakDestination_def BreakableBlock_find.simps
        BreakableBlock_EnsureDestination_def BuildJoinEntry_def AllocateBlockId_def
        example_breakables_def example_translation_def Let_def)
  note at_example = C5_break_destination [of example_breakables "[31, 30]" 0 31
      "[0, 1, 0, 1]" "\<lambda>s. - 1" 32 s_new]
  from at_example [THEN conjunct1, THEN mp, OF conjI [OF chain conjI [OF some live]]]
  obtain a block inst s1 where
    f: "find (BreakableBlock_has_index (BreakableBlock_at example_breakables) 0) [31, 30] = Some a"
    and b: "BreakableBlock_at example_breakables a = Some block"
    and d: "BreakableBlock_BreakDestination 31 0 True True example_breakables
             = Some (Inr (\<lparr>jump_destination = inst,
                           written_outer_finally = Some (bb_outer_finally block),
                           written_context_depth = Some (bb_context_depth block)\<rparr>, s1))"
    and st: "map_option BreakableBlock_destination (BreakableBlock_at s1 a) = Some inst"
    and fresh: "\<not> BreakableBlock_HadJumper block
              \<longrightarrow> inst = Some (length (zone example_breakables))
                  \<and> zone s1 = zone example_breakables
                       @ [\<lparr>join_block_id = last_used_block_id example_breakables + 1,
                           join_try_index = bb_try_index block\<rparr>]"
    and again: "BreakableBlock_BreakDestination 31 0 True True s1
             = Some (Inr (\<lparr>jump_destination = inst,
                           written_outer_finally = Some (bb_outer_finally block),
                           written_context_depth = Some (bb_context_depth block)\<rparr>, s1))"
    by blast
  from f found have a: "a = 30" by simp
  with b blk have block: "block = \<lparr>bb_index = 0, bb_outer = None, bb_destination = None,
              bb_outer_finally = None, bb_context_depth = 2, bb_try_index = - 1\<rparr>"
    by simp
  from fresh block blk have i: "inst = Some 0"
    "zone s1 = [\<lparr>join_block_id = 1, join_try_index = - 1\<rparr>]"
    by (simp_all add: BreakableBlock_HadJumper_def)
  from d st again a block i
  have one: "\<exists>s1. BreakableBlock_BreakDestination 31 0 True True example_breakables
         = Some (Inr (\<lparr>jump_destination = Some 0, written_outer_finally = Some None,
                       written_context_depth = Some 2\<rparr>, s1))
        \<and> map_option BreakableBlock_destination (BreakableBlock_at s1 30) = Some (Some 0)
        \<and> zone s1 = [\<lparr>join_block_id = 1, join_try_index = - 1\<rparr>]
        \<and> BreakableBlock_BreakDestination 31 0 True True s1
         = Some (Inr (\<lparr>jump_destination = Some 0, written_outer_finally = Some None,
                       written_context_depth = Some 2\<rparr>, s1))"
    by auto
  from at_example [THEN conjunct2, THEN conjunct1, THEN mp, OF conjI [OF chain conjI [OF cover live]]]
  obtain js s2 where
    r: "BreakableBlock_BreakDestinations 31 [0, 1, 0, 1] example_breakables = Some (Inr (js, s2))"
    and nn: "None \<notin> set js"
    and same: "\<forall>i < length [0, 1, 0, 1 :: intptr]. \<forall>k < length [0, 1, 0, 1 :: intptr].
                 [0, 1, 0, 1 :: intptr] ! i = [0, 1, 0, 1] ! k \<longrightarrow> js ! i = js ! k"
    by blast
  from same [THEN spec, of 0, THEN mp, THEN spec, of 2] have s02: "js ! 0 = js ! 2" by simp
  from same [THEN spec, of 1, THEN mp, THEN spec, of 3] have s13: "js ! 1 = js ! 3" by simp
  from r nn s02 s13
  have two: "\<exists>js s2. BreakableBlock_BreakDestinations 31 [0, 1, 0, 1] example_breakables
                = Some (Inr (js, s2))
              \<and> None \<notin> set js \<and> js ! 0 = js ! 2 \<and> js ! 1 = js ! 3"
    by blast
  from at_example [THEN conjunct2, THEN conjunct2, THEN mp, OF ctor] ctor blk
  have three: "\<exists>s_new blk. BreakableBlock_ctor (\<lambda>s. - 1) 32 example_breakables = Inr s_new
         \<and> BreakableBlock_at s_new 32 = Some blk \<and> bb_index blk = 2
         \<and> bb_outer_finally blk = Some 20 \<and> bb_context_depth blk = 3"
    by auto
  from chain has one ev two three show ?thesis by (intro conjI)
qed

end
